(* ===== verification/Prelude.thy ===== *)
theory Prelude
  imports Main "HOL-Library.Word" "HOL-Library.List_Lexorder"
begin

text \<open>
  The shared vocabulary of the development: JavaScript strings and buffers, the values that are
  thrown, and the generic list and sum lemmas every component uses.

  A JavaScript string is a list of UTF-16 code units (\<open>16 word\<close>); its \<open>length\<close> is the number of
  code units, as in the source (\<open>content.length\<close>, \<open>newPassword.length\<close>).  A Node \<open>Buffer\<close> is a list
  of bytes.  \<open>HOL-Library.List_Lexorder\<close> orders strings lexicographically by code unit, which is the
  order of \<open>Array.prototype.sort\<close> without a comparator, so \<open>sort\<close> of the list library is that method.
\<close>

section \<open>Collections\<close>

named_theorems act_simps \<open>how the effect combinators compute\<close>
named_theorems js_simps \<open>how JavaScript operators compute on constructors\<close>
named_theorems safe_intros \<open>introduction rules for per-request safety of effect trees\<close>

section \<open>Strings and buffers\<close>

type_synonym jschar = "16 word"
type_synonym jsstr = "16 word list"
type_synonym byte = "8 word"
type_synonym bytes = "8 word list"

text \<open>An ASCII literal of the source, and a literal given by its code units.\<close>

definition js :: "string \<Rightarrow> jsstr" where
  "js s = map (\<lambda>c. of_nat (of_char c)) s"

definition units :: "nat list \<Rightarrow> jsstr" where
  "units ns = map of_nat ns"

lemma js_Nil [simp]: "js [] = []"
  by (simp add: js_def)

lemma js_Cons: "js (c # s) = of_nat (of_char c) # js s"
  by (simp add: js_def)

lemma js_append: "js (s @ t) = js s @ js t"
  by (simp add: js_def)

lemma length_js [simp]: "length (js s) = length s"
  by (simp add: js_def)

lemma js_eq_Nil [simp]: "js s = [] \<longleftrightarrow> s = []"
  by (simp add: js_def)

lemma of_char_less_256: "(of_char c :: nat) < 256"
  by simp

lemma js_inj: "js s = js t \<longleftrightarrow> s = t"
proof
  have "inj (\<lambda>c. (of_nat (of_char c) :: jschar))"
  proof (rule injI)
    fix c d :: char
    assume "(of_nat (of_char c) :: jschar) = of_nat (of_char d)"
    then have "unat (of_nat (of_char c) :: jschar) = unat (of_nat (of_char d) :: jschar)"
      by simp
    moreover have "\<And>c. (of_char c :: nat) < 2 ^ 16"
      using of_char_less_256 by (rule less_trans) simp
    ultimately have "(of_char c :: nat) = of_char d"
      by (simp add: unat_of_nat take_bit_nat_eq_self)
    then show "c = d" by simp
  qed
  moreover assume "js s = js t"
  ultimately show "s = t"
    by (simp add: js_def inj_map_eq_map)
qed simp

section \<open>Thrown values\<close>

text \<open>
  What a \<open>throw\<close> or a rejected promise carries: an \<open>Error\<close> object with its message (and, for an axios
  error, \<open>error.response.status\<close>), or some other value, known by its \<open>String(value)\<close>.
\<close>

datatype err_kind = GenericError | TypeError | RangeError | SyntaxError | ServiceError

datatype jserr =
    ErrorObj err_kind jsstr "nat option"
  | ThrownValue jsstr

text \<open>\<open>error instanceof Error ? error.message : String(error)\<close>\<close>

fun err_message :: "jserr \<Rightarrow> jsstr" where
  "err_message (ErrorObj k msg st) = msg"
| "err_message (ThrownValue s) = s"

text \<open>\<open>error.response?.status\<close>\<close>

fun err_status :: "jserr \<Rightarrow> nat option" where
  "err_status (ErrorObj k msg st) = st"
| "err_status (ThrownValue s) = None"

abbreviation throw_error :: "string \<Rightarrow> jserr + 'a" where
  "throw_error msg \<equiv> Inl (ErrorObj GenericError (js msg) None)"

section \<open>Fallible computations\<close>

definition sum_bind :: "'e + 'a \<Rightarrow> ('a \<Rightarrow> 'e + 'b) \<Rightarrow> 'e + 'b" where
  "sum_bind m f = (case m of Inl e \<Rightarrow> Inl e | Inr x \<Rightarrow> f x)"

lemma sum_bind_simps [simp]:
  "sum_bind (Inl e) f = Inl e"
  "sum_bind (Inr x) f = f x"
  by (simp_all add: sum_bind_def)

lemma sum_bind_eq_Inr [simp]:
  "sum_bind m f = Inr y \<longleftrightarrow> (\<exists>x. m = Inr x \<and> f x = Inr y)"
  by (cases m) simp_all

section \<open>Lists\<close>

lemma list_all_takeWhile: "list_all P (takeWhile P xs)"
  by (induction xs) simp_all

lemma takeWhile_append_stop:
  "list_all P xs \<Longrightarrow> ys = [] \<or> \<not> P (hd ys) \<Longrightarrow> takeWhile P (xs @ ys) = xs"
  by (induction xs) (cases ys, auto)

lemma dropWhile_append_stop:
  "list_all P xs \<Longrightarrow> ys = [] \<or> \<not> P (hd ys) \<Longrightarrow> dropWhile P (xs @ ys) = ys"
  by (induction xs) (cases ys, auto)

lemma filter_dropWhile_neg: "filter (\<lambda>x. \<not> P x) (dropWhile P xs) = filter (\<lambda>x. \<not> P x) xs"
  by (induction xs) simp_all

end
