(* ===== verification/JsString.thy ===== *)
theory JsString
  imports Prelude
begin

text \<open>
  The string library the bridge uses: white space and \<open>trim\<close>/\<open>trimStart\<close>, \<open>substring\<close>,
  \<open>lastIndexOf\<close>, \<open>endsWith\<close>, \<open>join\<close>, decimal numerals, and the six regular expressions of
  \<open>routes/wechat.ts\<close>.  The regular expressions are matched by functions; an independent relational
  reading of the \<open>passwd\<close> pattern is given and shown to agree.
\<close>

section \<open>White space\<close>

text \<open>
  ECMAScript's \<open>WhiteSpace\<close> and \<open>LineTerminator\<close> productions, which \<open>trim\<close>, \<open>trimStart\<close> and the
  class \<open>\s\<close> of a regular expression share.
\<close>

definition ws_units :: "nat list" where
  "ws_units = [9, 10, 11, 12, 13, 32, 160, 5760] @ [8192..<8203] @ [8232, 8233, 8239, 8287, 12288, 65279]"

definition is_ws :: "jschar \<Rightarrow> bool" where
  "is_ws c \<longleftrightarrow> unat c \<in> set ws_units"

definition trim_start :: "jsstr \<Rightarrow> jsstr" where
  "trim_start s = dropWhile is_ws s"

definition trim_end :: "jsstr \<Rightarrow> jsstr" where
  "trim_end s = rev (dropWhile is_ws (rev s))"

definition trim :: "jsstr \<Rightarrow> jsstr" where
  "trim s = trim_end (trim_start s)"

lemma filter_non_ws_trim_start: "filter (\<lambda>c. \<not> is_ws c) (trim_start s) = filter (\<lambda>c. \<not> is_ws c) s"
  by (simp add: trim_start_def filter_dropWhile_neg)

lemma filter_non_ws_trim_end: "filter (\<lambda>c. \<not> is_ws c) (trim_end s) = filter (\<lambda>c. \<not> is_ws c) s"
  by (simp add: trim_end_def flip: rev_filter) (simp add: filter_dropWhile_neg rev_filter)

lemma length_trim_start: "length (trim_start s) \<le> length s"
  by (simp add: trim_start_def length_dropWhile_le)

lemma trim_start_suffix: "\<exists>w. list_all is_ws w \<and> s = w @ trim_start s"
  by (rule exI [of _ "takeWhile is_ws s"])
    (simp add: trim_start_def list_all_takeWhile)

lemma trim_start_no_ws: "trim_start s = [] \<or> \<not> is_ws (hd (trim_start s))"
  unfolding trim_start_def using hd_dropWhile [of is_ws s] by blast

lemma trim_end_no_ws: "trim_end s = [] \<or> \<not> is_ws (last (trim_end s))"
  unfolding trim_end_def using hd_dropWhile [of is_ws "rev s"] by (auto simp: last_rev)

lemma trim_end_id: "s = [] \<or> \<not> is_ws (last s) \<Longrightarrow> trim_end s = s"
  by (cases s rule: rev_cases) (simp_all add: trim_end_def)

lemma trim_start_id: "s = [] \<or> \<not> is_ws (hd s) \<Longrightarrow> trim_start s = s"
  by (cases s) (simp_all add: trim_start_def)

lemma trim_end_prefix: "\<exists>w. list_all is_ws w \<and> s = trim_end s @ w"
proof -
  obtain w where "list_all is_ws w" "rev s = w @ trim_start (rev s)"
    using trim_start_suffix by blast
  then have "list_all is_ws (rev w)" "s = rev (trim_start (rev s)) @ rev w"
    by (simp_all add: list_all_iff) (metis rev_append rev_rev_ident)
  then show ?thesis unfolding trim_end_def trim_start_def by blast
qed

lemma trim_no_ws_hd: "trim s = [] \<or> \<not> is_ws (hd (trim s))"
proof -
  obtain w where w: "trim_start s = trim s @ w"
    using trim_end_prefix unfolding trim_def by blast
  show ?thesis
    using trim_start_no_ws [of s] by (cases "trim s") (auto simp: w)
qed

lemma trim_no_ws_last: "trim s = [] \<or> \<not> is_ws (last (trim s))"
  unfolding trim_def by (rule trim_end_no_ws)

lemma trim_idem [simp]: "trim (trim s) = trim s"
  using trim_no_ws_hd [of s] trim_no_ws_last [of s]
  by (simp add: trim_def [of "trim s"] trim_start_id trim_end_id)

section \<open>Surrogates\<close>

definition is_high :: "jschar \<Rightarrow> bool" where
  "is_high c \<longleftrightarrow> 55296 \<le> unat c \<and> unat c < 56320"

definition is_low :: "jschar \<Rightarrow> bool" where
  "is_low c \<longleftrightarrow> 56320 \<le> unat c \<and> unat c < 57344"

section \<open>Positions\<close>

text \<open>\<open>s.substring(i, j)\<close> for non-negative \<open>i \<le> j\<close>; \<open>s.substring(i)\<close>; \<open>s.slice(0, n)\<close>.\<close>

definition substring :: "jsstr \<Rightarrow> nat \<Rightarrow> nat \<Rightarrow> jsstr" where
  "substring s i j = take (j - i) (drop i s)"

definition substring_from :: "jsstr \<Rightarrow> nat \<Rightarrow> jsstr" where
  "substring_from s i = drop i s"

text \<open>\<open>s.lastIndexOf(c, from)\<close> for a one-unit search string: the last index \<open>\<le> from\<close>, or \<open>-1\<close>.\<close>

definition last_index_of :: "jsstr \<Rightarrow> jschar \<Rightarrow> nat \<Rightarrow> int" where
  "last_index_of s c from =
     (let is = filter (\<lambda>i. s ! i = c) [0..<min (length s) (Suc from)]
      in if is = [] then -1 else int (last is))"

lemma last_index_of_range: "-1 \<le> last_index_of s c from \<and> last_index_of s c from \<le> int from"
proof -
  let ?is = "filter (\<lambda>i. s ! i = c) [0..<min (length s) (Suc from)]"
  show ?thesis
  proof (cases "?is = []")
    case True
    then show ?thesis by (simp add: last_index_of_def)
  next
    case False
    then have "last ?is \<in> set ?is" by (rule last_in_set)
    then have "last ?is \<le> from" by simp
    with False show ?thesis by (simp add: last_index_of_def)
  qed
qed

lemma last_index_of_hit:
  "last_index_of s c from = int i \<Longrightarrow> i < length s \<and> i \<le> from \<and> s ! i = c"
proof -
  let ?is = "filter (\<lambda>i. s ! i = c) [0..<min (length s) (Suc from)]"
  assume a: "last_index_of s c from = int i"
  then have ne: "?is \<noteq> []" by (auto simp: last_index_of_def Let_def split: if_splits)
  with a have "last ?is = i" by (simp add: last_index_of_def)
  with last_in_set [OF ne] show ?thesis by simp
qed

definition ends_with :: "jsstr \<Rightarrow> jsstr \<Rightarrow> bool" where
  "ends_with s t \<longleftrightarrow> length t \<le> length s \<and> drop (length s - length t) s = t"

lemma ends_with_iff: "ends_with s t \<longleftrightarrow> (\<exists>u. s = u @ t)"
proof
  assume "ends_with s t"
  then have "s = take (length s - length t) s @ t"
    by (metis append_take_drop_id ends_with_def)
  then show "\<exists>u. s = u @ t" ..
qed (auto simp: ends_with_def)

text \<open>\<open>arr.join(sep)\<close>\<close>

fun join :: "jsstr \<Rightarrow> jsstr list \<Rightarrow> jsstr" where
  "join sep [] = []"
| "join sep [x] = x"
| "join sep (x # y # xs) = x @ sep @ join sep (y # xs)"

lemma join_Nil_concat [simp]: "join [] xs = concat xs"
  by (induction "[] :: jsstr" xs rule: join.induct) simp_all

lemma join_ne: "ys \<noteq> [] \<Longrightarrow> join sep (x # ys) = x @ sep @ join sep ys"
  by (cases ys) simp_all

lemma join_Cons: "join sep (x # xs) = x @ concat (map (\<lambda>y. sep @ y) xs)"
  by (induction xs arbitrary: x) simp_all

section \<open>Decimal numerals\<close>

definition digit :: "nat \<Rightarrow> jschar" where
  "digit d = of_nat (48 + d)"

definition is_digit :: "jschar \<Rightarrow> bool" where
  "is_digit c \<longleftrightarrow> 48 \<le> unat c \<and> unat c \<le> 57"

definition digit_val :: "jschar \<Rightarrow> nat" where
  "digit_val c = unat c - 48"

fun nat_digits :: "nat \<Rightarrow> jsstr" where
  "nat_digits n = (if n < 10 then [digit n] else nat_digits (n div 10) @ [digit (n mod 10)])"

declare nat_digits.simps [simp del]

definition int_str :: "int \<Rightarrow> jsstr" where
  "int_str i = (if i < 0 then js ''-'' else []) @ nat_digits (nat \<bar>i\<bar>)"

definition digits_val :: "jsstr \<Rightarrow> nat" where
  "digits_val ds = foldl (\<lambda>a c. 10 * a + digit_val c) 0 ds"

lemma unat_digit: "d < 10 \<Longrightarrow> unat (digit d) = 48 + d"
  using unat_of_nat [of "48 + d", where 'a = 16] by (simp add: digit_def)

lemma is_digit_digit [simp]: "d < 10 \<Longrightarrow> is_digit (digit d)"
  by (simp add: is_digit_def unat_digit)

lemma digit_val_digit [simp]: "d < 10 \<Longrightarrow> digit_val (digit d) = d"
  by (simp add: digit_val_def unat_digit)

lemma nat_digits_ne [simp]: "nat_digits n \<noteq> []"
  by (subst nat_digits.simps) simp

lemma nat_digits_all: "list_all is_digit (nat_digits n)"
proof (induction n rule: nat_digits.induct)
  case (1 n)
  then show ?case by (cases "n < 10") (simp_all add: nat_digits.simps [of n])
qed

lemma digits_val_nat_digits [simp]: "digits_val (nat_digits n) = n"
proof (induction n rule: nat_digits.induct)
  case (1 n)
  show ?case
  proof (cases "n < 10")
    case True
    then show ?thesis by (simp add: nat_digits.simps [of n] digits_val_def)
  next
    case False
    with 1 have "digits_val (nat_digits (n div 10)) = n div 10" by simp
    with False show ?thesis
      by (simp add: nat_digits.simps [of n] digits_val_def)
  qed
qed

lemma nat_digits_inj: "nat_digits m = nat_digits n \<longleftrightarrow> m = n"
  by (metis digits_val_nat_digits)

lemma nat_digits_leading: "n \<noteq> 0 \<Longrightarrow> hd (nat_digits n) \<noteq> digit 0"
proof (induction n rule: nat_digits.induct)
  case (1 n)
  show ?case
  proof (cases "n < 10")
    case True
    then have "unat (digit n) \<noteq> unat (digit 0)" using 1 by (simp add: unat_digit)
    with True show ?thesis by (auto simp: nat_digits.simps [of n])
  next
    case False
    with 1 have "hd (nat_digits (n div 10)) \<noteq> digit 0" by simp
    with False show ?thesis by (simp add: nat_digits.simps [of n])
  qed
qed

lemma digit_not_ws: "is_digit c \<Longrightarrow> \<not> is_ws c"
  by (auto simp: is_digit_def is_ws_def ws_units_def)

section \<open>The command patterns\<close>

text \<open>
  Case-insensitive comparison of one code unit (flag \<open>i\<close> without \<open>u\<close>): both sides are mapped by
  \<open>toUpperCase\<close>, and a non-ASCII unit whose upper case is ASCII is left alone, so against the ASCII
  letters of these patterns only ASCII letters fold.
\<close>

definition upper :: "jschar \<Rightarrow> jschar" where
  "upper c = (if 97 \<le> unat c \<and> unat c \<le> 122 then c - 32 else c)"

definition ci_eq :: "jsstr \<Rightarrow> jsstr \<Rightarrow> bool" where
  "ci_eq s t \<longleftrightarrow> map upper s = map upper t"

lemma ci_eq_length: "ci_eq s t \<Longrightarrow> length s = length t"
  unfolding ci_eq_def by (metis length_map)

lemma ci_eq_trans: "ci_eq s t \<Longrightarrow> ci_eq s u \<Longrightarrow> ci_eq t u"
  by (simp add: ci_eq_def)

text \<open>\<open>/^word$/i\<close>: without flag \<open>m\<close> the anchors are the two ends of the string.\<close>

definition regex_word :: "string \<Rightarrow> jsstr \<Rightarrow> bool" where
  "regex_word w s \<longleftrightarrow> ci_eq s (js w)"

definition STATUS_REGEX :: "jsstr \<Rightarrow> bool" where
  "STATUS_REGEX = regex_word ''status''"

definition RESTART_REGEX :: "jsstr \<Rightarrow> bool" where
  "RESTART_REGEX = regex_word ''restart''"

definition STOP_REGEX :: "jsstr \<Rightarrow> bool" where
  "STOP_REGEX = regex_word ''stop''"

definition DESTROY_REGEX :: "jsstr \<Rightarrow> bool" where
  "DESTROY_REGEX = regex_word ''destroy''"

definition HELP_REGEX :: "jsstr \<Rightarrow> bool" where
  "HELP_REGEX = regex_word ''help''"

text \<open>
  \<open>content.match(/^passwd\s+(\S+)$/i)\<close> and the captured group.  \<open>\s\<close> and \<open>\S\<close> are complements, so the
  greedy run of white space after the word is the only one that can be followed by \<open>\S+$\<close>.
\<close>

definition PASSWD_REGEX :: "jsstr \<Rightarrow> jsstr option" where
  "PASSWD_REGEX s =
     (let kw = take 6 s; rest = drop 6 s; gap = takeWhile is_ws rest; pw = dropWhile is_ws rest
      in if ci_eq kw (js ''passwd'') \<and> gap \<noteq> [] \<and> pw \<noteq> [] \<and> list_all (\<lambda>c. \<not> is_ws c) pw
         then Some pw else None)"

text \<open>The pattern read as a relation between the subject and the captured group.\<close>

definition passwd_pattern :: "jsstr \<Rightarrow> jsstr \<Rightarrow> bool" where
  "passwd_pattern s pw \<longleftrightarrow>
     (\<exists>kw gap. s = kw @ gap @ pw \<and> ci_eq kw (js ''passwd'') \<and>
        gap \<noteq> [] \<and> list_all is_ws gap \<and> pw \<noteq> [] \<and> list_all (\<lambda>c. \<not> is_ws c) pw)"

lemma PASSWD_REGEX_iff: "PASSWD_REGEX s = Some pw \<longleftrightarrow> passwd_pattern s pw"
proof
  assume "PASSWD_REGEX s = Some pw"
  then have *: "ci_eq (take 6 s) (js ''passwd'')" "takeWhile is_ws (drop 6 s) \<noteq> []"
    "dropWhile is_ws (drop 6 s) = pw" "pw \<noteq> []" "list_all (\<lambda>c. \<not> is_ws c) pw"
    by (auto simp: PASSWD_REGEX_def Let_def split: if_splits)
  have "s = take 6 s @ takeWhile is_ws (drop 6 s) @ pw"
    using *(3) by (metis append_take_drop_id takeWhile_dropWhile_id)
  with * show "passwd_pattern s pw"
    unfolding passwd_pattern_def using list_all_takeWhile by blast
next
  assume "passwd_pattern s pw"
  then obtain kw gap where s: "s = kw @ gap @ pw" and kw: "ci_eq kw (js ''passwd'')"
    and gap: "gap \<noteq> []" "list_all is_ws gap" and pw: "pw \<noteq> []" "list_all (\<lambda>c. \<not> is_ws c) pw"
    by (auto simp: passwd_pattern_def)
  have len: "length kw = 6" using ci_eq_length [OF kw] by simp
  have stop: "pw = [] \<or> \<not> is_ws (hd pw)" using pw by (cases pw) auto
  from s len have d: "take 6 s = kw" "drop 6 s = gap @ pw" by simp_all
  have tw: "takeWhile is_ws (drop 6 s) = gap" and dw: "dropWhile is_ws (drop 6 s) = pw"
    using takeWhile_append_stop [OF gap(2) stop] dropWhile_append_stop [OF gap(2) stop]
    by (simp_all add: d)
  show "PASSWD_REGEX s = Some pw"
    unfolding PASSWD_REGEX_def Let_def d(1) tw dw using kw gap pw by simp
qed

end
