(* ===== verification/Bytes.thy ===== *)
theory Bytes
  imports JsString
begin

text \<open>
  The parts of Node's \<open>Buffer\<close> that \<open>utils/crypto.ts\<close> uses: UTF-8, base64, hexadecimal, big-endian
  32-bit integers and \<open>subarray\<close>.  Encoders and decoders come with their round trips.
\<close>

unbundle bit_operations_syntax

section \<open>Slices\<close>

text \<open>\<open>buf.subarray(start, end)\<close>: a negative index counts from the end, both are clamped.\<close>

definition clamp_index :: "nat \<Rightarrow> int \<Rightarrow> nat" where
  "clamp_index len i = nat (max 0 (min (int len) (if i < 0 then int len + i else i)))"

definition subarray :: "bytes \<Rightarrow> int \<Rightarrow> int \<Rightarrow> bytes" where
  "subarray buf start end' =
     (let a = clamp_index (length buf) start; b = clamp_index (length buf) end'
      in take (b - a) (drop a buf))"

definition subarray_from :: "bytes \<Rightarrow> int \<Rightarrow> bytes" where
  "subarray_from buf start = drop (clamp_index (length buf) start) buf"

lemma clamp_index_nat [simp]: "clamp_index n (int i) = min n i"
  by (simp add: clamp_index_def min_def)

lemma subarray_nat: "subarray buf (int i) (int j) = take (min (length buf) j - min (length buf) i) (drop i buf)"
  by (cases "i \<le> length buf") (simp_all add: subarray_def Let_def min_def)

lemma subarray_from_nat: "subarray_from buf (int i) = drop i buf"
  by (cases "i \<le> length buf") (simp_all add: subarray_from_def min_def)

section \<open>Big-endian 32-bit integers\<close>

definition be32 :: "nat \<Rightarrow> bytes" where
  "be32 n = map of_nat [n div 2 ^ 24 mod 256, n div 2 ^ 16 mod 256, n div 2 ^ 8 mod 256, n mod 256]"

fun be32_val :: "bytes \<Rightarrow> nat" where
  "be32_val [a, b, c, d] = unat a * 2 ^ 24 + unat b * 2 ^ 16 + unat c * 2 ^ 8 + unat d"
| "be32_val _ = 0"

text \<open>\<open>buf.writeUInt32BE(n, 0)\<close> throws unless \<open>n < 2^32\<close>; \<open>buf.readUInt32BE(off)\<close> unless four bytes are left.\<close>

definition writeUInt32BE :: "nat \<Rightarrow> jserr + bytes" where
  "writeUInt32BE n =
     (if n < 2 ^ 32 then Inr (be32 n)
      else Inl (ErrorObj RangeError (js ''The value of value is out of range'') None))"

definition readUInt32BE :: "bytes \<Rightarrow> nat \<Rightarrow> jserr + nat" where
  "readUInt32BE buf off =
     (if off + 4 \<le> length buf then Inr (be32_val (take 4 (drop off buf)))
      else Inl (ErrorObj RangeError (js ''Attempt to access memory outside buffer bounds'') None))"

lemma length_be32 [simp]: "length (be32 n) = 4"
  by (simp add: be32_def)

lemma unat_of_nat_byte: "n < 256 \<Longrightarrow> unat (of_nat n :: byte) = n"
  using unat_of_nat [of n, where 'a = 8] by simp

lemma byte_lt: "unat (b :: byte) < 256"
  by (rule order_less_le_trans [OF unsigned_less]) simp

lemma of_nat_unat_byte: "(of_nat (unat (b :: byte)) :: byte) = b"
  by simp

lemma unat_of_nat_char: "n < 65536 \<Longrightarrow> unat (of_nat n :: jschar) = n"
  using unat_of_nat [of n, where 'a = 16] by simp

lemma base256_digits:
  fixes n :: nat
  shows "n div 256 div 256 div 256 * 16777216 + n div 256 div 256 mod 256 * 65536 + n div 256 mod 256 * 256 + n mod 256 = n"
  using mult_div_mod_eq [of 256 n] mult_div_mod_eq [of 256 "n div 256"]
    mult_div_mod_eq [of 256 "n div 256 div 256"] by linarith

lemma be32_val_be32: "n < 2 ^ 32 \<Longrightarrow> be32_val (be32 n) = n"
proof -
  assume n: "n < 2 ^ 32"
  have d: "n div 65536 = n div 256 div 256" "n div 16777216 = n div 256 div 256 div 256"
    by (simp_all flip: div_mult2_eq)
  have "n div 16777216 < 256" using n by (simp add: less_mult_imp_div_less)
  with base256_digits [of n] d show ?thesis by (simp add: be32_def unat_of_nat_byte)
qed

lemma readUInt32BE_be32:
  "n < 2 ^ 32 \<Longrightarrow> readUInt32BE (pre @ be32 n @ suf) (length pre) = Inr n"
  by (simp add: readUInt32BE_def be32_val_be32)

section \<open>Hexadecimal\<close>

definition hex_unit :: "nat \<Rightarrow> jschar" where
  "hex_unit d = of_nat (if d < 10 then 48 + d else 87 + d)"

definition to_hex :: "bytes \<Rightarrow> jsstr" where
  "to_hex bs = concat (map (\<lambda>b. [hex_unit (unat b div 16), hex_unit (unat b mod 16)]) bs)"

lemma length_to_hex [simp]: "length (to_hex bs) = 2 * length bs"
  by (induction bs) (simp_all add: to_hex_def)

lemma hex_unit_inj: "a < 16 \<Longrightarrow> b < 16 \<Longrightarrow> hex_unit a = hex_unit b \<longleftrightarrow> a = b"
proof -
  assume "a < 16" "b < 16"
  moreover have "unat (hex_unit d) = (if d < 10 then 48 + d else 87 + d)" if "d < 16" for d
    using that unat_of_nat [of "48 + d", where 'a = 16] unat_of_nat [of "87 + d", where 'a = 16]
    by (simp add: hex_unit_def)
  ultimately have "unat (hex_unit a) = unat (hex_unit b) \<longleftrightarrow> a = b" by auto
  then show ?thesis by auto
qed

lemma to_hex_inj: "to_hex a = to_hex b \<Longrightarrow> a = b"
proof (induction a arbitrary: b)
  case Nil
  then show ?case by (cases b) (simp_all add: to_hex_def)
next
  case (Cons x a)
  then obtain y b' where b: "b = y # b'" by (cases b) (simp_all add: to_hex_def)
  have lt: "unat x div 16 < 16" "unat y div 16 < 16"
    using byte_lt [of x] byte_lt [of y] by linarith+
  with Cons.prems b have "unat x div 16 = unat y div 16" "unat x mod 16 = unat y mod 16" "to_hex a = to_hex b'"
    by (simp_all add: to_hex_def hex_unit_inj)
  then have "unat x = unat y" by (metis div_mult_mod_eq)
  then have "x = y" by (metis of_nat_unat_byte)
  with Cons.IH \<open>to_hex a = to_hex b'\<close> b show ?case by simp
qed

section \<open>Base64\<close>

definition b64_char :: "nat \<Rightarrow> jschar" where
  "b64_char d = of_nat (if d < 26 then 65 + d else if d < 52 then 71 + d else if d < 62 then d - 4
     else if d = 62 then 43 else 47)"

text \<open>The decoder accepts the URL-safe alphabet too and skips every other character.\<close>

definition b64_val :: "jschar \<Rightarrow> nat option" where
  "b64_val c = (let n = unat c in
     if 65 \<le> n \<and> n \<le> 90 then Some (n - 65)
     else if 97 \<le> n \<and> n \<le> 122 then Some (n - 71)
     else if 48 \<le> n \<and> n \<le> 57 then Some (n + 4)
     else if n = 43 \<or> n = 45 then Some 62
     else if n = 47 \<or> n = 95 then Some 63 else None)"

fun b64_groups :: "bytes \<Rightarrow> jsstr" where
  "b64_groups [] = []"
| "b64_groups [a] = [b64_char (unat a div 4), b64_char (unat a mod 4 * 16), 61, 61]"
| "b64_groups [a, b] =
     [b64_char (unat a div 4), b64_char (unat a mod 4 * 16 + unat b div 16), b64_char (unat b mod 16 * 4), 61]"
| "b64_groups (a # b # c # bs) =
     b64_char (unat a div 4) # b64_char (unat a mod 4 * 16 + unat b div 16)
     # b64_char (unat b mod 16 * 4 + unat c div 64) # b64_char (unat c mod 64) # b64_groups bs"

definition to_base64 :: "bytes \<Rightarrow> jsstr" where
  "to_base64 = b64_groups"

fun b64_bytes :: "nat list \<Rightarrow> bytes" where
  "b64_bytes (w # x # y # z # r) =
     of_nat (w * 4 + x div 16) # of_nat (x mod 16 * 16 + y div 4) # of_nat (y mod 4 * 64 + z) # b64_bytes r"
| "b64_bytes [w, x, y] = [of_nat (w * 4 + x div 16), of_nat (x mod 16 * 16 + y div 4)]"
| "b64_bytes [w, x] = [of_nat (w * 4 + x div 16)]"
| "b64_bytes _ = []"

definition from_base64 :: "jsstr \<Rightarrow> bytes" where
  "from_base64 s = b64_bytes (List.map_filter b64_val s)"

lemma b64_val_char: "d < 64 \<Longrightarrow> b64_val (b64_char d) = Some d"
proof -
  assume d: "d < 64"
  have "unat (b64_char d) = (if d < 26 then 65 + d else if d < 52 then 71 + d else if d < 62 then d - 4
     else if d = 62 then 43 else 47)"
    unfolding b64_char_def by (rule unat_of_nat_char) (use d in auto)
  with d show ?thesis by (auto simp: b64_val_def Let_def)
qed

lemma b64_val_pad: "b64_val 61 = None"
  by (simp add: b64_val_def)

lemma byte_parts:
  fixes a b c :: byte
  shows "unat a div 4 < 64" "unat a mod 4 * 16 + unat b div 16 < 64"
    "unat b mod 16 * 4 + unat c div 64 < 64" "unat a mod 4 * 16 < 64" "unat b mod 16 * 4 < 64"
  using byte_lt [of a] byte_lt [of b] byte_lt [of c] by linarith+

lemma byte_join:
  fixes a b c :: byte
  shows "(of_nat (unat a div 4 * 4 + (unat a mod 4 * 16 + unat b div 16) div 16) :: byte) = a"
    and "(of_nat ((unat a mod 4 * 16 + unat b div 16) mod 16 * 16 + (unat b mod 16 * 4 + unat c div 64) div 4) :: byte) = b"
    and "(of_nat ((unat b mod 16 * 4 + unat c div 64) mod 4 * 64 + unat c mod 64) :: byte) = c"
    and "(of_nat (unat a div 4 * 4 + unat a mod 4 * 16 div 16) :: byte) = a"
    and "(of_nat ((unat a mod 4 * 16 + unat b div 16) mod 16 * 16 + unat b mod 16 * 4 div 4) :: byte) = b"
proof -
  have ab: "(unat a mod 4 * 16 + unat b div 16) div 16 = unat a mod 4"
    "(unat a mod 4 * 16 + unat b div 16) mod 16 = unat b div 16"
    using byte_lt [of b] less_mult_imp_div_less [of "unat b" 16 16] by simp_all
  have bc: "(unat b mod 16 * 4 + unat c div 64) div 4 = unat b mod 16"
    "(unat b mod 16 * 4 + unat c div 64) mod 4 = unat c div 64"
    using byte_lt [of c] less_mult_imp_div_less [of "unat c" 4 64] by simp_all
  have sq: "unat a mod 4 * 16 div 16 = unat a mod 4" "unat b mod 16 * 4 div 4 = unat b mod 16"
    by simp_all
  show "(of_nat (unat a div 4 * 4 + (unat a mod 4 * 16 + unat b div 16) div 16) :: byte) = a"
    "(of_nat (unat a div 4 * 4 + unat a mod 4 * 16 div 16) :: byte) = a"
    by (simp_all only: ab sq div_mult_mod_eq of_nat_unat_byte)
  show "(of_nat ((unat a mod 4 * 16 + unat b div 16) mod 16 * 16 + (unat b mod 16 * 4 + unat c div 64) div 4) :: byte) = b"
    "(of_nat ((unat a mod 4 * 16 + unat b div 16) mod 16 * 16 + unat b mod 16 * 4 div 4) :: byte) = b"
    by (simp_all only: ab bc sq div_mult_mod_eq of_nat_unat_byte)
  show "(of_nat ((unat b mod 16 * 4 + unat c div 64) mod 4 * 64 + unat c mod 64) :: byte) = c"
    by (simp only: bc div_mult_mod_eq of_nat_unat_byte)
qed

lemma b64_bytes_group:
  "b64_bytes (unat a div 4 # (unat a mod 4 * 16 + unat b div 16) # (unat b mod 16 * 4 + unat c div 64)
     # (unat c mod 64) # r) = a # b # c # b64_bytes r"
  "b64_bytes [unat a div 4, unat a mod 4 * 16 + unat b div 16, unat b mod 16 * 4] = [a, b]"
  "b64_bytes [unat a div 4, unat a mod 4 * 16] = [a]"
  by (simp_all only: b64_bytes.simps byte_join)

lemma from_to_base64 [simp]: "from_base64 (to_base64 bs) = bs"
  unfolding from_base64_def to_base64_def
proof (induction bs rule: b64_groups.induct)
  case (2 a)
  show ?case
    by (simp add: List.map_filter_simps b64_val_char b64_val_pad byte_parts b64_bytes_group del: b64_bytes.simps)
next
  case (3 a b)
  show ?case
    by (simp add: List.map_filter_simps b64_val_char b64_val_pad byte_parts b64_bytes_group del: b64_bytes.simps)
next
  case (4 a b c bs)
  then show ?case
    by (simp add: List.map_filter_simps b64_val_char byte_parts b64_bytes_group del: b64_bytes.simps)
qed (simp add: List.map_filter_simps)

lemma length_b64_bytes: "length (b64_bytes vs) = length vs * 3 div 4"
  by (induction vs rule: b64_bytes.induct) simp_all

section \<open>UTF-8\<close>

text \<open>\<open>Buffer.from(s, 'utf-8')\<close>: the code points of a string, a lone surrogate counting as \<open>U+FFFD\<close>.\<close>

fun code_points :: "jsstr \<Rightarrow> nat list" where
  "code_points [] = []"
| "code_points [c] = [if is_high c \<or> is_low c then 65533 else unat c]"
| "code_points (c # d # s) =
     (if is_high c \<and> is_low d
      then (65536 + (unat c - 55296) * 1024 + (unat d - 56320)) # code_points s
      else (if is_high c \<or> is_low c then 65533 else unat c) # code_points (d # s))"

definition utf8_point :: "nat \<Rightarrow> bytes" where
  "utf8_point p = map of_nat
     (if p < 128 then [p]
      else if p < 2048 then [192 + p div 64, 128 + p mod 64]
      else if p < 65536 then [224 + p div 4096, 128 + p div 64 mod 64, 128 + p mod 64]
      else [240 + p div 262144, 128 + p div 4096 mod 64, 128 + p div 64 mod 64, 128 + p mod 64])"

definition utf8_encode :: "jsstr \<Rightarrow> bytes" where
  "utf8_encode s = concat (map utf8_point (code_points s))"

text \<open>
  \<open>buf.toString('utf-8')\<close>: the decoder of the Encoding standard.  A lead byte fixes how many
  continuation bytes are needed and the range of the first; a byte out of range ends the sequence with
  \<open>U+FFFD\<close> and is read again as a lead byte.
\<close>

definition utf8_lead :: "nat \<Rightarrow> (nat \<times> nat \<times> nat \<times> nat) option" where
  "utf8_lead x =
     (if 194 \<le> x \<and> x \<le> 223 then Some (1, x - 192, 128, 191)
      else if 224 \<le> x \<and> x \<le> 239
        then Some (2, x - 224, if x = 224 then 160 else 128, if x = 237 then 159 else 191)
      else if 240 \<le> x \<and> x \<le> 244
        then Some (3, x - 240, if x = 240 then 144 else 128, if x = 244 then 143 else 191)
      else None)"

fun utf8_points :: "nat \<Rightarrow> nat \<Rightarrow> nat \<Rightarrow> nat \<Rightarrow> bytes \<Rightarrow> nat list" where
  "utf8_points 0 acc lo hi [] = []"
| "utf8_points (Suc n) acc lo hi [] = [65533]"
| "utf8_points 0 acc lo hi (b # bs) =
     (if unat b < 128 then unat b # utf8_points 0 0 128 191 bs
      else (case utf8_lead (unat b) of
              Some (n, acc', lo', hi') \<Rightarrow> utf8_points n acc' lo' hi' bs
            | None \<Rightarrow> 65533 # utf8_points 0 0 128 191 bs))"
| "utf8_points (Suc n) acc lo hi (b # bs) =
     (if lo \<le> unat b \<and> unat b \<le> hi
      then (if n = 0 then (acc * 64 + (unat b - 128)) # utf8_points 0 0 128 191 bs
            else utf8_points n (acc * 64 + (unat b - 128)) 128 191 bs)
      else 65533 # utf8_points 0 0 128 191 (b # bs))"

definition point_units :: "nat \<Rightarrow> jsstr" where
  "point_units p = (if p < 65536 then [of_nat p]
     else [of_nat (55296 + (p - 65536) div 1024), of_nat (56320 + (p - 65536) mod 1024)])"

definition utf8_decode :: "bytes \<Rightarrow> jsstr" where
  "utf8_decode bs = concat (map point_units (utf8_points 0 0 128 191 bs))"

text \<open>A string without lone surrogates, and the code points such a string has.\<close>

fun well_formed :: "jsstr \<Rightarrow> bool" where
  "well_formed [] = True"
| "well_formed [c] = (\<not> is_high c \<and> \<not> is_low c)"
| "well_formed (c # d # s) =
     (if is_high c then is_low d \<and> well_formed s else \<not> is_low c \<and> well_formed (d # s))"

definition scalar :: "nat \<Rightarrow> bool" where
  "scalar p \<longleftrightarrow> p < 55296 \<or> (57344 \<le> p \<and> p < 1114112)"

lemma utf8_start:
  "128 \<le> unat b \<Longrightarrow> utf8_lead (unat b) = Some (n, acc', lo', hi') \<Longrightarrow>
     utf8_points 0 acc lo hi (b # bs) = utf8_points n acc' lo' hi' bs"
  by simp

lemma utf8_cont:
  "x < 64 \<Longrightarrow> lo \<le> 128 + x \<Longrightarrow> 128 + x \<le> hi \<Longrightarrow> utf8_points (Suc n) acc lo hi (of_nat (128 + x) # bs) =
     (if n = 0 then (acc * 64 + x) # utf8_points 0 0 128 191 bs else utf8_points n (acc * 64 + x) 128 191 bs)"
  using unat_of_nat_byte [of "128 + x"] by (simp del: of_nat_add)

lemma utf8_two:
  assumes "2 \<le> a" "a < 32" "b < 64"
  shows "utf8_points 0 acc lo hi (of_nat (192 + a) # of_nat (128 + b) # bs) = (a * 64 + b) # utf8_points 0 0 128 191 bs"
proof -
  have u: "unat (of_nat (192 + a) :: byte) = 192 + a" using assms by (intro unat_of_nat_byte) simp
  have "utf8_points 0 acc lo hi (of_nat (192 + a) # of_nat (128 + b) # bs) =
      utf8_points (Suc 0) a 128 191 (of_nat (128 + b) # bs)"
    by (rule utf8_start) (use assms u in \<open>auto simp: utf8_lead_def simp del: of_nat_add\<close>)
  with assms show ?thesis by (simp add: utf8_cont del: utf8_points.simps of_nat_add)
qed

lemma utf8_three:
  assumes "a < 16" "b < 64" "c < 64" "a = 0 \<Longrightarrow> 32 \<le> b" "a = 13 \<Longrightarrow> b < 32"
  shows "utf8_points 0 acc lo hi (of_nat (224 + a) # of_nat (128 + b) # of_nat (128 + c) # bs) =
    ((a * 64 + b) * 64 + c) # utf8_points 0 0 128 191 bs"
proof -
  have u: "unat (of_nat (224 + a) :: byte) = 224 + a" using assms by (intro unat_of_nat_byte) simp
  have "utf8_points 0 acc lo hi (of_nat (224 + a) # of_nat (128 + b) # of_nat (128 + c) # bs) =
      utf8_points (Suc (Suc 0)) a (if a = 0 then 160 else 128) (if a = 13 then 159 else 191)
        (of_nat (128 + b) # of_nat (128 + c) # bs)"
    by (rule utf8_start) (use assms u in \<open>auto simp: utf8_lead_def simp del: of_nat_add\<close>)
  moreover have "(if a = 0 then 160 else 128) \<le> 128 + b" "128 + b \<le> (if a = 13 then 159 else 191)"
    using assms by auto
  note utf8_cont [OF assms(2) this, of "Suc 0" a "of_nat (128 + c) # bs"]
  ultimately show ?thesis using assms by (simp add: utf8_cont del: utf8_points.simps of_nat_add)
qed

lemma utf8_four:
  assumes "a < 5" "b < 64" "c < 64" "d < 64" "a = 0 \<Longrightarrow> 16 \<le> b" "a = 4 \<Longrightarrow> b < 16"
  shows "utf8_points 0 acc lo hi (of_nat (240 + a) # of_nat (128 + b) # of_nat (128 + c) # of_nat (128 + d) # bs) =
    (((a * 64 + b) * 64 + c) * 64 + d) # utf8_points 0 0 128 191 bs"
proof -
  have u: "unat (of_nat (240 + a) :: byte) = 240 + a" using assms by (intro unat_of_nat_byte) simp
  have "utf8_points 0 acc lo hi (of_nat (240 + a) # of_nat (128 + b) # of_nat (128 + c) # of_nat (128 + d) # bs) =
      utf8_points (Suc (Suc (Suc 0))) a (if a = 0 then 144 else 128) (if a = 4 then 143 else 191)
        (of_nat (128 + b) # of_nat (128 + c) # of_nat (128 + d) # bs)"
    by (rule utf8_start) (use assms u in \<open>auto simp: utf8_lead_def simp del: of_nat_add\<close>)
  moreover have "(if a = 0 then 144 else 128) \<le> 128 + b" "128 + b \<le> (if a = 4 then 143 else 191)"
    using assms by auto
  note utf8_cont [OF assms(2) this, of "Suc (Suc 0)" a "of_nat (128 + c) # of_nat (128 + d) # bs"]
  ultimately show ?thesis using assms by (simp add: utf8_cont del: utf8_points.simps of_nat_add)
qed

lemma base64_digits:
  fixes p :: nat
  shows "p = p div 64 * 64 + p mod 64"
    and "p = (p div 4096 * 64 + p div 64 mod 64) * 64 + p mod 64"
    and "p = ((p div 262144 * 64 + p div 4096 mod 64) * 64 + p div 64 mod 64) * 64 + p mod 64"
proof -
  have d: "p div 4096 = p div 64 div 64" "p div 262144 = p div 4096 div 64" by (simp_all flip: div_mult2_eq)
  show "p = p div 64 * 64 + p mod 64" by simp
  then show *: "p = (p div 4096 * 64 + p div 64 mod 64) * 64 + p mod 64"
    by (simp only: d(1) div_mult_mod_eq)
  show "p = ((p div 262144 * 64 + p div 4096 mod 64) * 64 + p div 64 mod 64) * 64 + p mod 64"
    using * by (simp only: d(2) div_mult_mod_eq)
qed

lemma three_bounds:
  fixes p a b c :: nat
  assumes "p = (a * 64 + b) * 64 + c" "b < 64" "c < 64" "2048 \<le> p" "p < 65536"
  shows "a < 16 \<and> (a = 0 \<longrightarrow> 32 \<le> b) \<and> (scalar p \<longrightarrow> a = 13 \<longrightarrow> b < 32)"
proof -
  have p: "p = 4096 * a + 64 * b + c" using assms(1) by simp
  have "a < 16" "a = 0 \<Longrightarrow> 32 \<le> b" using assms(2-) p by auto
  moreover have "b < 32" if "scalar p" "a = 13" using assms(2-) p that by (auto simp: scalar_def)
  ultimately show ?thesis by blast
qed

lemma four_bounds:
  fixes p a b c d :: nat
  assumes "p = ((a * 64 + b) * 64 + c) * 64 + d" "b < 64" "c < 64" "d < 64" "65536 \<le> p" "p < 1114112"
  shows "a < 5 \<and> (a = 0 \<longrightarrow> 16 \<le> b) \<and> (a = 4 \<longrightarrow> b < 16)"
proof -
  have p: "p = 262144 * a + 4096 * b + 64 * c + d" using assms(1) by simp
  have "a < 5" "a = 0 \<Longrightarrow> 16 \<le> b" "a = 4 \<Longrightarrow> b < 16" using assms(2-) p by auto
  then show ?thesis by blast
qed

lemma utf8_points_point:
  assumes "scalar p"
  shows "utf8_points 0 acc lo hi (utf8_point p @ bs) = p # utf8_points 0 0 128 191 bs"
proof -
  have m: "p mod 64 < 64" "p div 64 mod 64 < 64" "p div 4096 mod 64 < 64" by simp_all
  consider "p < 128" | "128 \<le> p" "p < 2048" | "2048 \<le> p" "p < 65536" | "65536 \<le> p" "p < 1114112"
    using assms unfolding scalar_def by linarith
  then show ?thesis
  proof cases
    case 1
    then show ?thesis by (simp add: utf8_point_def unat_of_nat_byte)
  next
    case 2
    then have "2 \<le> p div 64" "p div 64 < 32" using base64_digits(1) [of p] m by linarith+
    from utf8_two [OF this m(1), of acc lo hi bs] 2 show ?thesis
      by (simp add: utf8_point_def del: utf8_points.simps of_nat_add)
  next
    case 3
    note e = base64_digits(2) [of p]
    note b = three_bounds [OF e m(2,1) 3]
    have "utf8_point p = [of_nat (224 + p div 4096), of_nat (128 + p div 64 mod 64), of_nat (128 + p mod 64)]"
      using 3 by (simp add: utf8_point_def)
    moreover have "utf8_points 0 acc lo hi (of_nat (224 + p div 4096) # of_nat (128 + p div 64 mod 64)
        # of_nat (128 + p mod 64) # bs) = p # utf8_points 0 0 128 191 bs"
      using utf8_three [of "p div 4096" "p div 64 mod 64" "p mod 64" acc lo hi bs] m b assms
      unfolding e [symmetric] by blast
    ultimately show ?thesis by (simp only: append.simps)
  next
    case 4
    note e = base64_digits(3) [of p]
    note b = four_bounds [OF e m(3,2,1) 4]
    have "utf8_point p = [of_nat (240 + p div 262144), of_nat (128 + p div 4096 mod 64),
        of_nat (128 + p div 64 mod 64), of_nat (128 + p mod 64)]"
      using 4 by (simp add: utf8_point_def)
    moreover have "utf8_points 0 acc lo hi (of_nat (240 + p div 262144) # of_nat (128 + p div 4096 mod 64)
        # of_nat (128 + p div 64 mod 64) # of_nat (128 + p mod 64) # bs) = p # utf8_points 0 0 128 191 bs"
      using utf8_four [of "p div 262144" "p div 4096 mod 64" "p div 64 mod 64" "p mod 64" acc lo hi bs] m b
      unfolding e [symmetric] by blast
    ultimately show ?thesis by (simp only: append.simps)
  qed
qed

lemma utf8_points_all: "list_all scalar ps \<Longrightarrow> utf8_points 0 acc lo hi (concat (map utf8_point ps)) = ps"
  by (induction ps arbitrary: acc lo hi) (simp_all add: utf8_points_point)

lemma code_points_scalar: "list_all scalar (code_points s)"
proof (induction s rule: code_points.induct)
  case (2 c)
  show ?case
    using unsigned_less [of c, where 'a = nat] by (auto simp: scalar_def is_high_def is_low_def)
next
  case (3 c d s)
  have "unat c < 65536" by (rule order_less_le_trans [OF unsigned_less]) simp
  with 3 show ?case by (auto simp: scalar_def is_high_def is_low_def)
qed simp

lemma utf8_decode_encode_points: "utf8_decode (utf8_encode s) = concat (map point_units (code_points s))"
  by (simp add: utf8_decode_def utf8_encode_def utf8_points_all [OF code_points_scalar])

lemma point_units_pair:
  assumes "is_high c" "is_low d"
  shows "point_units (65536 + (unat c - 55296) * 1024 + (unat d - 56320)) = [c, d]"
proof -
  let ?p = "(unat c - 55296) * 1024 + (unat d - 56320)"
  have "unat d - 56320 < 1024" using assms by (auto simp: is_low_def)
  then have "?p div 1024 = unat c - 55296" "?p mod 1024 = unat d - 56320" by simp_all
  moreover have "55296 + (unat c - 55296) = unat c" "56320 + (unat d - 56320) = unat d"
    using assms by (auto simp: is_high_def is_low_def)
  ultimately show ?thesis by (simp add: point_units_def flip: of_nat_add)
qed

lemma point_units_unit: "point_units (unat c) = [c]"
proof -
  have "unat c < 65536" by (rule order_less_le_trans [OF unsigned_less]) simp
  then show ?thesis by (simp add: point_units_def)
qed

lemma utf8_roundtrip: "well_formed s \<Longrightarrow> utf8_decode (utf8_encode s) = s"
  unfolding utf8_decode_encode_points
proof (induction s rule: well_formed.induct)
  case (3 c d s)
  have "\<not> (is_high x \<and> is_low x)" for x by (auto simp: is_high_def is_low_def)
  with 3 show ?case
    by (auto simp: point_units_pair point_units_unit split: if_splits)
qed (simp_all add: point_units_unit)

lemma well_formed_ascii: "list_all (\<lambda>c. unat c < 128) s \<Longrightarrow> well_formed s"
  by (induction s rule: well_formed.induct) (auto simp: is_high_def is_low_def)

lemma js_ascii: "list_all (\<lambda>c. (of_char c :: nat) < 128) s \<Longrightarrow> well_formed (js s)"
proof (rule well_formed_ascii)
  assume "list_all (\<lambda>c. (of_char c :: nat) < 128) s"
  then show "list_all (\<lambda>c. unat c < 128) (js s)"
    by (auto simp: js_def list_all_iff unat_of_nat_char)
qed

end
