(* ===== verification/Aes.thy ===== *)
theory Aes
  imports Bytes
begin

text \<open>
  \<open>crypto.createCipheriv('aes-256-cbc', key, iv)\<close> and \<open>createDecipheriv\<close> of Node's standard library,
  without automatic padding.  The block cipher is written out after FIPS 197 and shown to be inverted
  by its decryption; cipher block chaining is developed over any pair of block functions with that
  law (the locale \<open>block_cipher\<close>) and interpreted on AES-256.
\<close>

section \<open>The AES-256 block cipher\<close>

definition SBOX :: "nat list" where
  "SBOX = [99, 124, 119, 123, 242, 107, 111, 197, 48, 1, 103, 43, 254, 215, 171, 118,
      202, 130, 201, 125, 250, 89, 71, 240, 173, 212, 162, 175, 156, 164, 114, 192,
      183, 253, 147, 38, 54, 63, 247, 204, 52, 165, 229, 241, 113, 216, 49, 21,
      4, 199, 35, 195, 24, 150, 5, 154, 7, 18, 128, 226, 235, 39, 178, 117,
      9, 131, 44, 26, 27, 110, 90, 160, 82, 59, 214, 179, 41, 227, 47, 132,
      83, 209, 0, 237, 32, 252, 177, 91, 106, 203, 190, 57, 74, 76, 88, 207,
      208, 239, 170, 251, 67, 77, 51, 133, 69, 249, 2, 127, 80, 60, 159, 168,
      81, 163, 64, 143, 146, 157, 56, 245, 188, 182, 218, 33, 16, 255, 243, 210,
      205, 12, 19, 236, 95, 151, 68, 23, 196, 167, 126, 61, 100, 93, 25, 115,
      96, 129, 79, 220, 34, 42, 144, 136, 70, 238, 184, 20, 222, 94, 11, 219,
      224, 50, 58, 10, 73, 6, 36, 92, 194, 211, 172, 98, 145, 149, 228, 121,
      231, 200, 55, 109, 141, 213, 78, 169, 108, 86, 244, 234, 101, 122, 174, 8,
      186, 120, 37, 46, 28, 166, 180, 198, 232, 221, 116, 31, 75, 189, 139, 138,
      112, 62, 181, 102, 72, 3, 246, 14, 97, 53, 87, 185, 134, 193, 29, 158,
      225, 248, 152, 17, 105, 217, 142, 148, 155, 30, 135, 233, 206, 85, 40, 223,
      140, 161, 137, 13, 191, 230, 66, 104, 65, 153, 45, 15, 176, 84, 187, 22]"

definition sub_byte :: "byte \<Rightarrow> byte" where
  "sub_byte b = of_nat (SBOX ! unat b)"

text \<open>The inverse table: the position of a value in the S-box.\<close>

definition inv_sub_byte :: "byte \<Rightarrow> byte" where
  "inv_sub_byte b = of_nat (length (takeWhile (\<lambda>x. x \<noteq> unat b) SBOX))"

text \<open>Multiplication by \<open>X\<close> in \<open>GF(2^8)\<close>.\<close>

definition xtime :: "byte \<Rightarrow> byte" where
  "xtime b = push_bit 1 b XOR (if bit b 7 then 0x1b else 0)"

text \<open>The state is the 16 bytes of a block, column by column.\<close>

definition shift_rows :: "bytes \<Rightarrow> bytes" where
  "shift_rows s = map (\<lambda>i. s ! ((i + 4 * (i mod 4)) mod 16)) [0..<16]"

definition inv_shift_rows :: "bytes \<Rightarrow> bytes" where
  "inv_shift_rows s = map (\<lambda>i. s ! ((i + 12 * (i mod 4)) mod 16)) [0..<16]"

fun mix_columns :: "bytes \<Rightarrow> bytes" where
  "mix_columns (a # b # c # d # s) =
     (xtime a XOR xtime b XOR b XOR c XOR d) # (a XOR xtime b XOR xtime c XOR c XOR d)
     # (a XOR b XOR xtime c XOR xtime d XOR d) # (xtime a XOR a XOR b XOR c XOR xtime d) # mix_columns s"
| "mix_columns s = s"

definition mul9 :: "byte \<Rightarrow> byte" where "mul9 b = xtime (xtime (xtime b)) XOR b"
definition mul11 :: "byte \<Rightarrow> byte" where "mul11 b = xtime (xtime (xtime b)) XOR xtime b XOR b"
definition mul13 :: "byte \<Rightarrow> byte" where "mul13 b = xtime (xtime (xtime b)) XOR xtime (xtime b) XOR b"
definition mul14 :: "byte \<Rightarrow> byte" where "mul14 b = xtime (xtime (xtime b)) XOR xtime (xtime b) XOR xtime b"

fun inv_mix_columns :: "bytes \<Rightarrow> bytes" where
  "inv_mix_columns (a # b # c # d # s) =
     (mul14 a XOR mul11 b XOR mul13 c XOR mul9 d) # (mul9 a XOR mul14 b XOR mul11 c XOR mul13 d)
     # (mul13 a XOR mul9 b XOR mul14 c XOR mul11 d) # (mul11 a XOR mul13 b XOR mul9 c XOR mul14 d)
     # inv_mix_columns s"
| "inv_mix_columns s = s"

definition xor_bytes :: "bytes \<Rightarrow> bytes \<Rightarrow> bytes" where
  "xor_bytes a b = map2 (XOR) a b"

text \<open>
  The key schedule: 60 words of four bytes from the eight words of the key, the latest word first.
\<close>

definition RCON :: "byte list" where
  "RCON = [1, 2, 4, 8, 16, 32, 64]"

fun expand_key :: "nat \<Rightarrow> nat \<Rightarrow> bytes list \<Rightarrow> bytes list" where
  "expand_key 0 i ws = rev ws"
| "expand_key (Suc n) i ws =
     expand_key n (Suc i)
       (xor_bytes (ws ! 7)
          (if i mod 8 = 0
           then xor_bytes (map sub_byte (tl (hd ws) @ [hd (hd ws)])) [RCON ! (i div 8 - 1), 0, 0, 0]
           else if i mod 8 = 4 then map sub_byte (hd ws) else hd ws) # ws)"

fun chunks :: "nat \<Rightarrow> nat \<Rightarrow> 'a list \<Rightarrow> 'a list list" where
  "chunks k 0 xs = []"
| "chunks k (Suc n) xs = take k xs # chunks k n (drop k xs)"

definition round_keys :: "bytes \<Rightarrow> bytes list" where
  "round_keys key = map concat (chunks 4 15 (expand_key 52 8 (rev (chunks 4 8 key))))"

fun aes_rounds :: "bytes list \<Rightarrow> bytes \<Rightarrow> bytes" where
  "aes_rounds [] s = s"
| "aes_rounds [rk] s = xor_bytes (shift_rows (map sub_byte s)) rk"
| "aes_rounds (rk # rks) s =
     aes_rounds rks (xor_bytes (mix_columns (shift_rows (map sub_byte s))) rk)"

fun inv_aes_rounds :: "bytes list \<Rightarrow> bytes \<Rightarrow> bytes" where
  "inv_aes_rounds [] s = s"
| "inv_aes_rounds [rk] s = map inv_sub_byte (inv_shift_rows (xor_bytes s rk))"
| "inv_aes_rounds (rk # rks) s =
     map inv_sub_byte (inv_shift_rows (inv_mix_columns (xor_bytes (inv_aes_rounds rks s) rk)))"

definition aes256_enc :: "bytes \<Rightarrow> bytes \<Rightarrow> bytes" where
  "aes256_enc key blk =
     (case round_keys key of [] \<Rightarrow> blk | rk # rks \<Rightarrow> aes_rounds rks (xor_bytes blk rk))"

definition aes256_dec :: "bytes \<Rightarrow> bytes \<Rightarrow> bytes" where
  "aes256_dec key blk =
     (case round_keys key of [] \<Rightarrow> blk | rk # rks \<Rightarrow> xor_bytes (inv_aes_rounds rks blk) rk)"

section \<open>Each step is inverted\<close>

lemma SBOX_length: "length SBOX = 256"
  by (simp add: SBOX_def)

text \<open>Distinctness by repeated halving of the range, to keep the evaluation short.\<close>

fun halving :: "nat list \<Rightarrow> nat \<Rightarrow> nat list \<Rightarrow> bool" where
  "halving [] lo xs = (length xs \<le> 1)"
| "halving (w # ws) lo xs =
     (halving ws lo (filter (\<lambda>x. x < lo + w) xs) \<and> halving ws (lo + w) (filter (\<lambda>x. \<not> x < lo + w) xs))"

lemma halving_distinct: "halving ws lo xs \<Longrightarrow> distinct xs"
proof (induction ws arbitrary: lo xs)
  case Nil
  then show ?case by (cases xs) simp_all
next
  case (Cons w ws)
  then have "distinct (filter (\<lambda>x. x < lo + w) xs)" "distinct (filter (\<lambda>x. \<not> x < lo + w) xs)" by auto
  then show ?case
    by (induction xs) (auto split: if_splits)
qed

lemma SBOX_distinct: "distinct SBOX"
  by (rule halving_distinct [of "[128, 64, 32, 16, 8, 4, 2, 1]" 0]) (simp add: SBOX_def)

lemma SBOX_bound: "list_all (\<lambda>x. x < 256) SBOX"
  by (simp add: SBOX_def)

lemma takeWhile_nth_distinct:
  "distinct xs \<Longrightarrow> i < length xs \<Longrightarrow> length (takeWhile (\<lambda>x. x \<noteq> xs ! i) xs) = i"
proof (induction xs arbitrary: i)
  case (Cons x xs)
  then show ?case by (cases i) auto
qed simp

lemma inv_sub_byte [simp]: "inv_sub_byte (sub_byte b) = b"
proof -
  have i: "unat b < length SBOX" using byte_lt [of b] by (simp add: SBOX_length)
  then have "SBOX ! unat b < 256" using SBOX_bound by (simp add: list_all_length)
  then have "unat (sub_byte b) = SBOX ! unat b" by (simp add: sub_byte_def unat_of_nat_byte)
  then show ?thesis
    using takeWhile_nth_distinct [OF SBOX_distinct i] by (simp add: inv_sub_byte_def)
qed

lemma length_shift_rows [simp]: "length (shift_rows s) = 16" "length (inv_shift_rows s) = 16"
  by (simp_all add: shift_rows_def inv_shift_rows_def)

lemma length_16:
  assumes "length s = 16"
  obtains a b c d e f g h i j k l m n p q where "s = [a, b, c, d, e, f, g, h, i, j, k, l, m, n, p, q]"
proof -
  have "length s = Suc (Suc (Suc (Suc (Suc (Suc (Suc (Suc (Suc (Suc (Suc (Suc (Suc (Suc (Suc (Suc 0)))))))))))))))"
    using assms by simp
  then show thesis by (auto simp: length_Suc_conv intro: that)
qed

lemma inv_shift_rows: "length s = 16 \<Longrightarrow> inv_shift_rows (shift_rows s) = s"
proof (erule length_16)
  fix a b c d e f g h i j k l m n p q :: byte
  assume s: "s = [a, b, c, d, e, f, g, h, i, j, k, l, m, n, p, q]"
  have u: "[0..<16] = [0, 1, 2, 3, 4, 5, 6, 7, 8, 9, 10, 11, 12, 13, 14, 15::nat]"
    by (simp add: upt_conv_Cons)
  show ?thesis by (simp add: s u shift_rows_def inv_shift_rows_def)
qed

lemma xtime_xor: "xtime (a XOR b) = xtime a XOR xtime b"
  by (rule bit_eqI) (auto simp: xtime_def bit_simps)

lemma xor_cancel: "(a :: 'a :: ring_bit_operations) XOR (a XOR b) = b"
  by (metis xor.assoc xor.left_neutral xor_self_eq)

lemma inv_mix_columns [simp]: "inv_mix_columns (mix_columns s) = s"
  by (induction s rule: mix_columns.induct)
    (simp_all add: mul9_def mul11_def mul13_def mul14_def xtime_xor xor.assoc xor.commute xor.left_commute xor_cancel)

lemma length_mix_columns [simp]: "length (mix_columns s) = length s" "length (inv_mix_columns s) = length s"
  by (induction s rule: mix_columns.induct) simp_all

lemma length_xor_bytes [simp]: "length (xor_bytes a b) = min (length a) (length b)"
  by (simp add: xor_bytes_def)

lemma xor_bytes_cancel: "length s \<le> length k \<Longrightarrow> xor_bytes (xor_bytes s k) k = s"
proof (induction s arbitrary: k)
  case (Cons a s)
  then show ?case by (cases k) (simp_all add: xor_bytes_def xor.assoc)
qed (simp add: xor_bytes_def)

lemma aes_rounds_inverse:
  assumes "list_all (\<lambda>rk. length rk = 16) rks" and "length s = 16"
  shows "inv_aes_rounds rks (aes_rounds rks s) = s \<and> length (aes_rounds rks s) = 16"
  using assms
proof (induction rks s rule: aes_rounds.induct)
  case (2 rk s)
  then show ?case by (simp add: xor_bytes_cancel inv_shift_rows comp_def)
next
  case (3 rk rk' rks s)
  let ?t = "mix_columns (shift_rows (map sub_byte s))"
  from 3 have "inv_aes_rounds (rk' # rks) (aes_rounds (rk' # rks) (xor_bytes ?t rk)) = xor_bytes ?t rk"
    "length (aes_rounds (rk' # rks) (xor_bytes ?t rk)) = 16" by simp_all
  with 3 show ?case
    by (simp add: xor_bytes_cancel inv_shift_rows comp_def del: aes_rounds.simps(2) inv_aes_rounds.simps(2))
qed simp

subsection \<open>The key schedule gives fifteen keys of sixteen bytes\<close>

lemma length_chunks [simp]: "length (chunks k n xs) = n"
  by (induction n arbitrary: xs) simp_all

lemma chunks_lengths: "length xs = k * n \<Longrightarrow> list_all (\<lambda>c. length c = k) (chunks k n xs)"
  by (induction n arbitrary: xs) simp_all

lemma concat_chunks: "length xs = k * n \<Longrightarrow> concat (chunks k n xs) = xs"
  by (induction n arbitrary: xs) simp_all

lemma chunks_list_all: "list_all P xs \<Longrightarrow> list_all (list_all P) (chunks k n xs)"
  by (induction n arbitrary: xs) (auto simp: list_all_iff dest: in_set_takeD in_set_dropD)

lemma expand_key_words:
  "list_all (\<lambda>w. length w = 4) ws \<Longrightarrow> 8 \<le> length ws \<Longrightarrow>
     list_all (\<lambda>w. length w = 4) (expand_key n i ws) \<and> length (expand_key n i ws) = n + length ws"
proof (induction n i ws rule: expand_key.induct)
  case (2 n i ws)
  then obtain w ws' where ws: "ws = w # ws'" "length w = 4" by (cases ws) auto
  let ?w = "xor_bytes (ws ! 7)
      (if i mod 8 = 0
       then xor_bytes (map sub_byte (tl (hd ws) @ [hd (hd ws)])) [RCON ! (i div 8 - 1), 0, 0, 0]
       else if i mod 8 = 4 then map sub_byte (hd ws) else hd ws)"
  have "length (ws ! 7) = 4" using 2 by (simp add: list_all_length)
  with ws have w: "length ?w = 4" by simp
  have "list_all (\<lambda>w. length w = 4) (expand_key n (Suc i) (?w # ws)) \<and>
      length (expand_key n (Suc i) (?w # ws)) = n + length (?w # ws)"
    by (rule "2.IH") (use 2 w in auto)
  then show ?case by (simp only: expand_key.simps length_Cons add_Suc_right add_Suc)
qed simp

lemma round_keys_lengths:
  assumes "length key = 32"
  shows "list_all (\<lambda>rk. length rk = 16) (round_keys key)" and "length (round_keys key) = 15"
proof -
  let ?ws = "expand_key 52 8 (rev (chunks 4 8 key))"
  have w: "list_all (\<lambda>w. length w = 4) ?ws" "length ?ws = 60"
    using expand_key_words [of "rev (chunks 4 8 key)" 52 8] chunks_lengths [of key 4 8] assms by simp_all
  have "length (concat c) = 16" if "length c = 4" "list_all (\<lambda>w. length w = 4) c" for c :: "bytes list"
    using that by (auto simp: length_Suc_conv numeral_eq_Suc)
  then show "list_all (\<lambda>rk. length rk = 16) (round_keys key)"
    using chunks_lengths [of ?ws 4 15] chunks_list_all [OF w(1), of 4 15] w(2)
    by (simp add: round_keys_def list_all_iff)
  show "length (round_keys key) = 15" by (simp add: round_keys_def)
qed

section \<open>Cipher block chaining\<close>

fun cbc_encrypt :: "(bytes \<Rightarrow> bytes) \<Rightarrow> bytes \<Rightarrow> bytes list \<Rightarrow> bytes list" where
  "cbc_encrypt e iv [] = []"
| "cbc_encrypt e iv (b # bs) = e (xor_bytes b iv) # cbc_encrypt e (e (xor_bytes b iv)) bs"

fun cbc_decrypt :: "(bytes \<Rightarrow> bytes) \<Rightarrow> bytes \<Rightarrow> bytes list \<Rightarrow> bytes list" where
  "cbc_decrypt d iv [] = []"
| "cbc_decrypt d iv (c # cs) = xor_bytes (d c) iv # cbc_decrypt d c cs"

text \<open>
  \<open>Buffer.concat([c.update(data), c.final()])\<close> for a cipher \<open>c\<close> created with \<open>key\<close> and \<open>iv\<close>: the lengths
  of \<open>iv\<close> and \<open>key\<close> are checked on creation, a partial last block on \<open>final\<close>.
\<close>

definition cbc_stream :: "(bytes \<Rightarrow> bytes list \<Rightarrow> bytes list) \<Rightarrow> bytes \<Rightarrow> bytes \<Rightarrow> bytes \<Rightarrow> jserr + bytes" where
  "cbc_stream mode key iv data =
     (if length iv \<noteq> 16 then Inl (ErrorObj TypeError (js ''Invalid initialization vector'') None)
      else if length key \<noteq> 32 then Inl (ErrorObj RangeError (js ''Invalid key length'') None)
      else if length data mod 16 \<noteq> 0
        then throw_error ''error:1C80006B:Provider routines::wrong final block length''
      else Inr (concat (mode iv (chunks 16 (length data div 16) data))))"

definition aes_256_cbc_encrypt :: "bytes \<Rightarrow> bytes \<Rightarrow> bytes \<Rightarrow> jserr + bytes" where
  "aes_256_cbc_encrypt key = cbc_stream (cbc_encrypt (aes256_enc key)) key"

definition aes_256_cbc_decrypt :: "bytes \<Rightarrow> bytes \<Rightarrow> bytes \<Rightarrow> jserr + bytes" where
  "aes_256_cbc_decrypt key = cbc_stream (cbc_decrypt (aes256_dec key)) key"

locale block_cipher =
  fixes enc dec :: "bytes \<Rightarrow> bytes \<Rightarrow> bytes"
  assumes dec_enc: "length k = 32 \<Longrightarrow> length b = 16 \<Longrightarrow> dec k (enc k b) = b"
    and length_enc: "length k = 32 \<Longrightarrow> length b = 16 \<Longrightarrow> length (enc k b) = 16"
begin

lemma cbc_inverse:
  assumes "length k = 32" "length iv = 16" "list_all (\<lambda>b. length b = 16) bs"
  shows "cbc_decrypt (dec k) iv (cbc_encrypt (enc k) iv bs) = bs"
    and "list_all (\<lambda>b. length b = 16) (cbc_encrypt (enc k) iv bs)"
    and "length (cbc_encrypt (enc k) iv bs) = length bs"
  using assms(2,3)
  by (induction bs arbitrary: iv) (simp_all add: assms(1) dec_enc length_enc xor_bytes_cancel)

lemma chunks_concat:
  "list_all (\<lambda>b. length b = k) bs \<Longrightarrow> chunks k (length bs) (concat bs) = bs"
  by (induction bs) simp_all

lemma length_concat_blocks: "list_all (\<lambda>b. length b = k) bs \<Longrightarrow> length (concat bs) = k * length bs"
  by (induction bs) simp_all

lemma stream_round_trip:
  assumes "length k = 32" "length iv = 16" "length data mod 16 = 0"
  shows "\<exists>c. cbc_stream (cbc_encrypt (enc k)) k iv data = Inr c
           \<and> cbc_stream (cbc_decrypt (dec k)) k iv c = Inr data \<and> length c = length data"
proof -
  let ?bs = "chunks 16 (length data div 16) data"
  let ?cs = "cbc_encrypt (enc k) iv ?bs"
  have data: "length data = 16 * (length data div 16)" using assms(3) by auto
  then have bs: "list_all (\<lambda>b. length b = 16) ?bs" "concat ?bs = data"
    by (rule chunks_lengths, rule concat_chunks)
  note cs = cbc_inverse [OF assms(1,2) bs(1)]
  have len: "length (concat ?cs) = 16 * (length data div 16)"
    using length_concat_blocks [OF cs(2)] cs(3) by simp
  have "chunks 16 (length (concat ?cs) div 16) (concat ?cs) = ?cs"
    using chunks_concat [OF cs(2)] cs(3) len by simp
  then have "cbc_stream (cbc_decrypt (dec k)) k iv (concat ?cs) = Inr data"
    using len cs(1) bs(2) assms by (simp add: cbc_stream_def)
  moreover have "cbc_stream (cbc_encrypt (enc k)) k iv data = Inr (concat ?cs)"
    using assms by (simp add: cbc_stream_def)
  ultimately show ?thesis using len data by auto
qed

end

lemma aes256_dec_enc:
  assumes "length k = 32" "length b = 16"
  shows "aes256_dec k (aes256_enc k b) = b" and "length (aes256_enc k b) = 16"
proof -
  obtain rk rks where rk: "round_keys k = rk # rks" "length rk = 16" "list_all (\<lambda>r. length r = 16) rks"
    using round_keys_lengths [OF assms(1)] by (cases "round_keys k") auto
  have "length (xor_bytes b rk) = 16" using rk assms by simp
  note inv = aes_rounds_inverse [OF rk(3) this]
  show "aes256_dec k (aes256_enc k b) = b" "length (aes256_enc k b) = 16"
    using inv rk assms by (simp_all add: aes256_dec_def aes256_enc_def xor_bytes_cancel)
qed

interpretation aes: block_cipher aes256_enc aes256_dec
  by unfold_locales (auto simp: aes256_dec_enc)

lemma aes_256_cbc_round_trip:
  assumes "length key = 32" "length iv = 16" "length data mod 16 = 0"
  obtains c where "aes_256_cbc_encrypt key iv data = Inr c" "aes_256_cbc_decrypt key iv c = Inr data"
    "length c = length data"
  using aes.stream_round_trip [OF assms] by (auto simp: aes_256_cbc_encrypt_def aes_256_cbc_decrypt_def)

end
