(* ===== verification/Sha1.thy ===== *)
theory Sha1
  imports Bytes
begin

text \<open>
  \<open>crypto.createHash('sha1').update(s).digest('hex')\<close> of Node's standard library, written out after
  FIPS 180-4 on 32-bit words: padding, the 80-word message schedule and the compression function.
  A string is hashed by its UTF-8 bytes.
\<close>

type_synonym word32 = "32 word"

definition be_word :: "bytes \<Rightarrow> word32" where
  "be_word bs = of_nat (be32_val bs)"

definition word_be :: "word32 \<Rightarrow> bytes" where
  "word_be w = be32 (unat w)"

text \<open>The padded message: \<open>0x80\<close>, zeros up to 56 modulo 64, the bit length on eight bytes.\<close>

definition sha1_pad :: "bytes \<Rightarrow> bytes" where
  "sha1_pad bs = bs @ [128] @ replicate ((119 - length bs mod 64) mod 64) 0
     @ be32 (8 * length bs div 2 ^ 32) @ be32 (8 * length bs)"

fun blocks :: "nat \<Rightarrow> bytes \<Rightarrow> bytes list" where
  "blocks 0 bs = []"
| "blocks (Suc n) bs = take 64 bs # blocks n (drop 64 bs)"

fun words_of :: "bytes \<Rightarrow> word32 list" where
  "words_of (a # b # c # d # bs) = be_word [a, b, c, d] # words_of bs"
| "words_of _ = []"

text \<open>The schedule grows backwards: the list holds the latest word first.\<close>

fun schedule :: "nat \<Rightarrow> word32 list \<Rightarrow> word32 list" where
  "schedule 0 ws = rev ws"
| "schedule (Suc n) ws = schedule n (word_rotl 1 (ws ! 2 XOR ws ! 7 XOR ws ! 13 XOR ws ! 15) # ws)"

fun sha1_f :: "nat \<Rightarrow> word32 \<Rightarrow> word32 \<Rightarrow> word32 \<Rightarrow> word32" where
  "sha1_f t b c d =
     (if t < 20 then (b AND c) OR (NOT b AND d)
      else if t < 40 then b XOR c XOR d
      else if t < 60 then (b AND c) OR (b AND d) OR (c AND d)
      else b XOR c XOR d)"

fun sha1_k :: "nat \<Rightarrow> word32" where
  "sha1_k t = (if t < 20 then 0x5a827999 else if t < 40 then 0x6ed9eba1
     else if t < 60 then 0x8f1bbcdc else 0xca62c1d6)"

type_synonym sha1_state = "word32 \<times> word32 \<times> word32 \<times> word32 \<times> word32"

fun sha1_rounds :: "nat \<Rightarrow> word32 list \<Rightarrow> sha1_state \<Rightarrow> sha1_state" where
  "sha1_rounds t [] st = st"
| "sha1_rounds t (w # ws) (a, b, c, d, e) =
     sha1_rounds (Suc t) ws
       (word_rotl 5 a + sha1_f t b c d + e + sha1_k t + w, a, word_rotl 30 b, c, d)"

fun sha1_add :: "sha1_state \<Rightarrow> sha1_state \<Rightarrow> sha1_state" where
  "sha1_add (a, b, c, d, e) (a', b', c', d', e') = (a + a', b + b', c + c', d + d', e + e')"

definition sha1_block :: "sha1_state \<Rightarrow> bytes \<Rightarrow> sha1_state" where
  "sha1_block st blk = sha1_add st (sha1_rounds 0 (schedule 64 (rev (words_of blk))) st)"

definition sha1_init :: sha1_state where
  "sha1_init = (0x67452301, 0xefcdab89, 0x98badcfe, 0x10325476, 0xc3d2e1f0)"

definition sha1_final :: "sha1_state \<Rightarrow> bytes" where
  "sha1_final = (\<lambda>(a, b, c, d, e). word_be a @ word_be b @ word_be c @ word_be d @ word_be e)"

definition sha1 :: "bytes \<Rightarrow> bytes" where
  "sha1 bs = sha1_final (foldl sha1_block sha1_init (blocks (length (sha1_pad bs) div 64) (sha1_pad bs)))"

definition sha1_hex :: "jsstr \<Rightarrow> jsstr" where
  "sha1_hex s = to_hex (sha1 (utf8_encode s))"

lemma length_sha1_pad: "length (sha1_pad bs) mod 64 = 0"
proof -
  have "(n + 1 + (119 - n mod 64) mod 64 + 8) mod 64 = 0" for n :: nat
  proof -
    have "(n + 1 + (119 - n mod 64) mod 64 + 8) mod 64 = (n + 9 + (119 - n mod 64) mod 64) mod 64"
      by (simp add: algebra_simps)
    also have "\<dots> = (n mod 64 + 9 + (119 - n mod 64)) mod 64"
      by (metis mod_add_left_eq mod_add_right_eq)
    also have "n mod 64 + 9 + (119 - n mod 64) = 128"
      using mod_less_divisor [of 64 n] by linarith
    finally show ?thesis by simp
  qed
  from this [of "length bs"] show ?thesis by (simp add: sha1_pad_def algebra_simps)
qed

lemma length_sha1 [simp]: "length (sha1 bs) = 20"
  by (simp add: sha1_def sha1_final_def word_be_def split: prod.split)

lemma length_sha1_hex: "length (sha1_hex s) = 40"
  by (simp add: sha1_hex_def)

lemma sha1_hex_eq: "sha1_hex s = sha1_hex t \<longleftrightarrow> sha1 (utf8_encode s) = sha1 (utf8_encode t)"
  by (auto simp: sha1_hex_def dest: to_hex_inj)

end
