(* ===== verification/JsValue.thy ===== *)
theory JsValue
  imports JsString
begin

text \<open>
  JavaScript values and the operators the sources apply to values of unknown shape: what the XML
  parser returns, what \<open>JSON.parse\<close> returns for a Redis entry or a request body, and what a service
  answers.  The TypeScript interfaces are casts the run time does not check, so these values stay
  dynamic: a property of \<open>undefined\<close> or \<open>null\<close> throws, a missing property is \<open>undefined\<close>.

  Numbers are exact decimals \<open>Dec m k\<close> (the value \<open>m / 10^k\<close>) or \<open>NaN\<close>.  The program adds, subtracts
  and compares integers far below \<open>2^53\<close> and prints the numbers it is given, for which doubles and
  exact decimals agree; rounding to 53 bits is not modelled.  Objects are association lists in
  insertion order (the reordering of integer-like keys is not modelled, no key of the program is
  one).
\<close>

section \<open>Numbers\<close>

datatype jsnum = Dec int nat | NaN

abbreviation num_int :: "int \<Rightarrow> jsnum" where
  "num_int i \<equiv> Dec i 0"

text \<open>Canonical form: no trailing zero after the decimal point.\<close>

fun canon :: "int \<Rightarrow> nat \<Rightarrow> jsnum" where
  "canon m 0 = Dec m 0"
| "canon m (Suc k) = (if m mod 10 = 0 then canon (m div 10) k else Dec m (Suc k))"

fun num_add :: "jsnum \<Rightarrow> jsnum \<Rightarrow> jsnum" where
  "num_add (Dec m j) (Dec n k) = (let d = max j k in canon (m * 10 ^ (d - j) + n * 10 ^ (d - k)) d)"
| "num_add _ _ = NaN"

fun num_mul :: "jsnum \<Rightarrow> jsnum \<Rightarrow> jsnum" where
  "num_mul (Dec m j) (Dec n k) = canon (m * n) (j + k)"
| "num_mul _ _ = NaN"

fun num_less :: "jsnum \<Rightarrow> jsnum \<Rightarrow> bool" where
  "num_less (Dec m j) (Dec n k) \<longleftrightarrow> m * 10 ^ k < n * 10 ^ j"
| "num_less _ _ \<longleftrightarrow> False"

fun num_truthy :: "jsnum \<Rightarrow> bool" where
  "num_truthy (Dec m k) \<longleftrightarrow> m \<noteq> 0"
| "num_truthy NaN \<longleftrightarrow> False"

lemma num_add_int [simp]: "num_add (num_int a) (num_int b) = num_int (a + b)"
  by simp

lemma num_less_int [simp]: "num_less (num_int a) (num_int b) \<longleftrightarrow> a < b"
  by simp

text \<open>
  \<open>Number::toString\<close>: with \<open>s\<close> the significant digits (no trailing zero) and \<open>n\<close> the position of the
  decimal point relative to their start, plain notation for \<open>-6 < n \<le> 21\<close> and exponent notation
  otherwise.
\<close>

definition strip_zeros :: "jsstr \<Rightarrow> jsstr" where
  "strip_zeros s = rev (dropWhile (\<lambda>c. c = digit 0) (rev s))"

definition abs_num_str :: "nat \<Rightarrow> nat \<Rightarrow> jsstr" where
  "abs_num_str m k =
     (let all = nat_digits m; s = strip_zeros all; len = length s;
          n = int (length all) - int k
      in if int len \<le> n \<and> n \<le> 21 then s @ replicate (nat n - len) (digit 0)
         else if 0 < n \<and> n \<le> 21 then take (nat n) s @ js ''.'' @ drop (nat n) s
         else if -6 < n \<and> n \<le> 0 then js ''0.'' @ replicate (nat (- n)) (digit 0) @ s
         else take 1 s @ (if len = 1 then [] else js ''.'' @ drop 1 s) @ js ''e''
              @ (if n - 1 < 0 then js ''-'' else js ''+'') @ nat_digits (nat \<bar>n - 1\<bar>))"

fun num_str :: "jsnum \<Rightarrow> jsstr" where
  "num_str NaN = js ''NaN''"
| "num_str (Dec m k) =
     (if m = 0 \<or> k = 0 \<and> \<bar>m\<bar> < 10 ^ 21 then int_str m
      else (if m < 0 then js ''-'' else []) @ abs_num_str (nat \<bar>m\<bar>) k)"

section \<open>Values\<close>

datatype jsval =
    Undef
  | Null
  | BoolV bool
  | NumV jsnum
  | StrV jsstr
  | ArrV "jsval list"
  | ObjV "(jsstr \<times> jsval) list"

abbreviation int_val :: "int \<Rightarrow> jsval" where
  "int_val i \<equiv> NumV (num_int i)"

abbreviation str_val :: "string \<Rightarrow> jsval" where
  "str_val s \<equiv> StrV (js s)"

fun truthy :: "jsval \<Rightarrow> bool" where
  "truthy Undef = False"
| "truthy Null = False"
| "truthy (BoolV b) = b"
| "truthy (NumV n) = num_truthy n"
| "truthy (StrV s) = (s \<noteq> [])"
| "truthy (ArrV xs) = True"
| "truthy (ObjV kvs) = True"

text \<open>\<open>a || b\<close>\<close>

definition js_or :: "jsval \<Rightarrow> jsval \<Rightarrow> jsval" where
  "js_or a b = (if truthy a then a else b)"

text \<open>\<open>String(v)\<close>, also what a template literal and \<open>'...' + v\<close> insert.\<close>

fun to_str :: "jsval \<Rightarrow> jsstr" where
  "to_str Undef = js ''undefined''"
| "to_str Null = js ''null''"
| "to_str (BoolV b) = (if b then js ''true'' else js ''false'')"
| "to_str (NumV n) = num_str n"
| "to_str (StrV s) = s"
| "to_str (ArrV xs) =
     join (js '','') (map (\<lambda>x. if x = Undef \<or> x = Null then [] else to_str x) xs)"
| "to_str (ObjV kvs) = js ''[object Object]''"

section \<open>Arithmetic on values\<close>

fun num_neg :: "jsnum \<Rightarrow> jsnum" where
  "num_neg (Dec m k) = Dec (- m) k"
| "num_neg NaN = NaN"

fun num_le :: "jsnum \<Rightarrow> jsnum \<Rightarrow> bool" where
  "num_le (Dec m j) (Dec n k) \<longleftrightarrow> m * 10 ^ k \<le> n * 10 ^ j"
| "num_le _ _ \<longleftrightarrow> False"

text \<open>
  \<open>Number(v)\<close>.  A string converts when it is empty or an optionally signed run of decimal digits
  within white space; the other numeric literals, and objects, convert to \<open>NaN\<close> here (the program
  meets numbers only).
\<close>

definition str_to_num :: "jsstr \<Rightarrow> jsnum" where
  "str_to_num s =
     (let t = trim s; neg = (t \<noteq> [] \<and> hd t = 45); ds = (if t \<noteq> [] \<and> hd t \<in> {43, 45} then tl t else t)
      in if t = [] then num_int 0
         else if ds \<noteq> [] \<and> list_all is_digit ds then num_int ((if neg then -1 else 1) * int (digits_val ds))
         else NaN)"

fun to_num :: "jsval \<Rightarrow> jsnum" where
  "to_num Undef = NaN"
| "to_num Null = num_int 0"
| "to_num (BoolV b) = num_int (if b then 1 else 0)"
| "to_num (NumV n) = n"
| "to_num (StrV s) = str_to_num s"
| "to_num (ArrV xs) = NaN"
| "to_num (ObjV kvs) = NaN"

text \<open>\<open>a + b\<close>: concatenation as soon as one side is a string or an object; \<open>a - b\<close> is numeric.\<close>

definition stringish :: "jsval \<Rightarrow> bool" where
  "stringish v \<longleftrightarrow> (case v of StrV s \<Rightarrow> True | ArrV xs \<Rightarrow> True | ObjV kvs \<Rightarrow> True | _ \<Rightarrow> False)"

definition js_add :: "jsval \<Rightarrow> jsval \<Rightarrow> jsval" where
  "js_add a b = (if stringish a \<or> stringish b then StrV (to_str a @ to_str b)
     else NumV (num_add (to_num a) (to_num b)))"

definition js_sub :: "jsval \<Rightarrow> jsval \<Rightarrow> jsnum" where
  "js_sub a b = num_add (to_num a) (num_neg (to_num b))"

lemma js_add_int [simp]: "js_add (int_val a) (int_val b) = int_val (a + b)"
  by (simp add: js_add_def stringish_def)

lemma js_sub_int [simp]: "js_sub (int_val a) (int_val b) = num_int (a - b)"
  by (simp add: js_sub_def)

section \<open>Properties\<close>

fun obj_get :: "(jsstr \<times> jsval) list \<Rightarrow> jsstr \<Rightarrow> jsval" where
  "obj_get [] k = Undef"
| "obj_get ((k', v) # kvs) k = (if k' = k then v else obj_get kvs k)"

fun obj_put :: "(jsstr \<times> jsval) list \<Rightarrow> jsstr \<Rightarrow> jsval \<Rightarrow> (jsstr \<times> jsval) list" where
  "obj_put [] k v = [(k, v)]"
| "obj_put ((k', v') # kvs) k v = (if k' = k then (k, v) # kvs else (k', v') # obj_put kvs k v)"

text \<open>
  \<open>v.name\<close>: throws on \<open>undefined\<close> and \<open>null\<close>.  The names the program reads are not properties of
  the prototypes of booleans, numbers, strings and arrays, where the result is \<open>undefined\<close>.
\<close>

fun get_prop :: "jsval \<Rightarrow> string \<Rightarrow> jserr + jsval" where
  "get_prop Undef k = Inl (ErrorObj TypeError
     (js ''Cannot read properties of undefined (reading '' @ js k @ js '')'') None)"
| "get_prop Null k = Inl (ErrorObj TypeError
     (js ''Cannot read properties of null (reading '' @ js k @ js '')'') None)"
| "get_prop (ObjV kvs) k = Inr (obj_get kvs (js k))"
| "get_prop _ k = Inr Undef"

text \<open>\<open>v?.name\<close>\<close>

definition opt_prop :: "jsval \<Rightarrow> string \<Rightarrow> jsval" where
  "opt_prop v k = (case v of Undef \<Rightarrow> Undef | Null \<Rightarrow> Undef | _ \<Rightarrow> (case get_prop v k of Inl _ \<Rightarrow> Undef | Inr x \<Rightarrow> x))"

text \<open>
  \<open>v.name = x\<close> in strict mode: throws unless \<open>v\<close> is an object.  A named property of an array is not
  one of its elements and never serialised, so the array stands for itself.
\<close>

fun set_prop :: "jsval \<Rightarrow> string \<Rightarrow> jsval \<Rightarrow> jserr + jsval" where
  "set_prop (ObjV kvs) k x = Inr (ObjV (obj_put kvs (js k) x))"
| "set_prop (ArrV xs) k x = Inr (ArrV xs)"
| "set_prop _ k x = Inl (ErrorObj TypeError (js ''Cannot create property '' @ js k) None)"

text \<open>\<open>Object.assign(v, fields)\<close> for an object \<open>v\<close>.\<close>

fun assign_fields :: "jsval \<Rightarrow> (string \<times> jsval) list \<Rightarrow> jsval" where
  "assign_fields (ObjV kvs) fs = ObjV (foldl (\<lambda>o' (k, x). obj_put o' (js k) x) kvs fs)"
| "assign_fields v fs = v"

text \<open>An object literal of the source.\<close>

definition obj :: "(string \<times> jsval) list \<Rightarrow> jsval" where
  "obj fs = ObjV (map (\<lambda>(k, v). (js k, v)) fs)"

section \<open>Laws of the operators\<close>

lemma obj_get_put: "obj_get (obj_put kvs k v) k' = (if k' = k then v else obj_get kvs k')"
  by (induction kvs) auto

lemma set_fst_obj_put: "fst ` set (obj_put kvs k v) = insert k (fst ` set kvs)"
proof (induction kvs)
  case (Cons kv kvs)
  then show ?case by (cases kv) (simp add: insert_commute)
qed simp

lemma distinct_obj_put: "distinct (map fst kvs) \<Longrightarrow> distinct (map fst (obj_put kvs k v))"
proof (induction kvs)
  case (Cons kv kvs)
  then show ?case using set_fst_obj_put [of kvs k v] by (cases kv) auto
qed simp

lemma obj_get_js_Cons:
  "obj_get (map (\<lambda>(k, v). (js k, v)) ((k, v) # fs)) (js k') =
     (if k = k' then v else obj_get (map (\<lambda>(k, v). (js k, v)) fs) (js k'))"
  by (simp add: js_inj)

lemma get_prop_obj [js_simps]:
  "get_prop (obj []) k' = Inr Undef"
  "get_prop (obj ((k, v) # fs)) k' = (if k = k' then Inr v else get_prop (obj fs) k')"
  by (simp_all add: obj_def js_inj)

lemma get_prop_set_prop:
  "set_prop v k x = Inr v' \<Longrightarrow> v = ObjV kvs \<Longrightarrow> get_prop v' k' = (if k' = k then Inr x else get_prop v k')"
  by (auto simp: obj_get_put js_inj)

lemma js_or_simps [js_simps]:
  "truthy a \<Longrightarrow> js_or a b = a"
  "\<not> truthy a \<Longrightarrow> js_or a b = b"
  by (simp_all add: js_or_def)

end
