(* ===== verification/Json.thy ===== *)
theory Json
  imports JsValue
begin

text \<open>
  \<open>JSON.stringify\<close> and \<open>JSON.parse\<close>, which every Redis entry, request body and response body of the
  program goes through.  The printer is the well-formed one of ES2019 (a lone surrogate is escaped);
  the parser is recursive descent over code units, with fuel for the nesting.  \<open>pv_enough\<close> shows that
  \<open>2 * length + 1\<close> units of fuel never run out, so \<open>json_parse\<close> fails only on a syntax error, and
  \<open>json_parse_stringify\<close> is the round trip.
\<close>

section \<open>Printing\<close>

definition hex_digit :: "nat \<Rightarrow> jschar" where
  "hex_digit d = of_nat (if d < 10 then 48 + d else 87 + d)"

definition hex4 :: "jschar \<Rightarrow> jsstr" where
  "hex4 c = (let n = unat c in
     map hex_digit [n div 4096, n div 256 mod 16, n div 16 mod 16, n mod 16])"

definition unicode_escape :: "jschar \<Rightarrow> jsstr" where
  "unicode_escape c = 92 # 117 # hex4 c"

text \<open>Escaping of one unit that is not part of a surrogate pair.\<close>

definition quote_unit :: "jschar \<Rightarrow> jsstr" where
  "quote_unit c =
     (if c = 8 then [92, 98] else if c = 9 then [92, 116] else if c = 10 then [92, 110]
      else if c = 12 then [92, 102] else if c = 13 then [92, 114]
      else if c = 34 then [92, 34] else if c = 92 then [92, 92]
      else if unat c < 32 \<or> is_high c \<or> is_low c then unicode_escape c
      else [c])"

fun quote_body :: "jsstr \<Rightarrow> jsstr" where
  "quote_body [] = []"
| "quote_body [c] = quote_unit c"
| "quote_body (c # d # cs) =
     (if is_high c \<and> is_low d then c # d # quote_body cs
      else quote_unit c @ quote_body (d # cs))"

definition json_quote :: "jsstr \<Rightarrow> jsstr" where
  "json_quote s = 34 # quote_body s @ [34]"

text \<open>
  An \<open>undefined\<close> property is left out and an \<open>undefined\<close> element prints as \<open>null\<close>, as does \<open>NaN\<close>.
  (\<open>JSON.stringify(undefined)\<close> itself never occurs in the program.)
\<close>

fun stringify :: "jsval \<Rightarrow> jsstr" where
  "stringify Undef = js ''null''"
| "stringify Null = js ''null''"
| "stringify (BoolV b) = (if b then js ''true'' else js ''false'')"
| "stringify (NumV n) = (if n = NaN then js ''null'' else num_str n)"
| "stringify (StrV s) = json_quote s"
| "stringify (ArrV xs) = 91 # join [44] (map stringify xs) @ [93]"
| "stringify (ObjV kvs) =
     123 # join [44] (map (\<lambda>(k, v). json_quote k @ 58 # stringify v)
                        (filter (\<lambda>(k, v). v \<noteq> Undef) kvs)) @ [125]"

section \<open>Parsing\<close>

definition json_ws :: "jschar \<Rightarrow> bool" where
  "json_ws c \<longleftrightarrow> c = 9 \<or> c = 10 \<or> c = 13 \<or> c = 32"

definition skip_ws :: "jsstr \<Rightarrow> jsstr" where
  "skip_ws s = dropWhile json_ws s"

definition hex_val :: "jschar \<Rightarrow> nat option" where
  "hex_val c = (let n = unat c in
     if 48 \<le> n \<and> n \<le> 57 then Some (n - 48)
     else if 97 \<le> n \<and> n \<le> 102 then Some (n - 87)
     else if 65 \<le> n \<and> n \<le> 70 then Some (n - 55) else None)"

fun hex4_val :: "jsstr \<Rightarrow> jschar option" where
  "hex4_val [a, b, c, d] =
     (case (hex_val a, hex_val b, hex_val c, hex_val d) of
        (Some w, Some x, Some y, Some z) \<Rightarrow> Some (of_nat (4096 * w + 256 * x + 16 * y + z))
      | _ \<Rightarrow> None)"
| "hex4_val _ = None"

definition unescape :: "jschar \<Rightarrow> jschar option" where
  "unescape c = (if c = 34 then Some 34 else if c = 92 then Some 92 else if c = 47 then Some 47
     else if c = 98 then Some 8 else if c = 102 then Some 12 else if c = 110 then Some 10
     else if c = 114 then Some 13 else if c = 116 then Some 9 else None)"

definition cons_fst :: "'a \<Rightarrow> ('a list \<times> 'b) option \<Rightarrow> ('a list \<times> 'b) option" where
  "cons_fst x r = map_option (\<lambda>(xs, y). (x # xs, y)) r"

text \<open>The rest of a string literal, after its opening quote.\<close>

fun pstr :: "jsstr \<Rightarrow> (jsstr \<times> jsstr) option" where
  "pstr [] = None"
| "pstr (c # cs) =
     (if c = 34 then Some ([], cs)
      else if c = 92 then
        (case cs of [] \<Rightarrow> None
         | e # r \<Rightarrow>
            if e = 117 then (case hex4_val (take 4 r) of None \<Rightarrow> None | Some u \<Rightarrow> cons_fst u (pstr (drop 4 r)))
            else (case unescape e of None \<Rightarrow> None | Some u \<Rightarrow> cons_fst u (pstr r)))
      else if unat c < 32 then None
      else cons_fst c (pstr cs))"

text \<open>Numbers: \<open>-? (0 | [1-9][0-9]*) (. [0-9]+)? ([eE] [+-]? [0-9]+)?\<close>\<close>

definition pnum_int :: "jsstr \<Rightarrow> (jsstr \<times> jsstr) option" where
  "pnum_int s = (case s of [] \<Rightarrow> None
     | c # cs \<Rightarrow> if c = 48 then Some ([c], cs)
                else if is_digit c then Some (takeWhile is_digit s, dropWhile is_digit s) else None)"

definition pnum_frac :: "jsstr \<Rightarrow> (jsstr \<times> jsstr) option" where
  "pnum_frac s = (case s of [] \<Rightarrow> Some ([], [])
     | c # cs \<Rightarrow> if c = 46 then (let ds = takeWhile is_digit cs in
                               if ds = [] then None else Some (ds, dropWhile is_digit cs))
                else Some ([], s))"

definition pnum_exp :: "jsstr \<Rightarrow> (int \<times> jsstr) option" where
  "pnum_exp s = (case s of [] \<Rightarrow> Some (0, [])
     | c # cs \<Rightarrow> if c = 101 \<or> c = 69 then
          (let neg = (cs \<noteq> [] \<and> hd cs = 45);
               body = (if cs \<noteq> [] \<and> (hd cs = 45 \<or> hd cs = 43) then tl cs else cs);
               ds = takeWhile is_digit body
           in if ds = [] then None
              else Some ((if neg then -1 else 1) * int (digits_val ds), dropWhile is_digit body))
        else Some (0, s))"

definition num_of_parts :: "bool \<Rightarrow> jsstr \<Rightarrow> jsstr \<Rightarrow> int \<Rightarrow> jsnum" where
  "num_of_parts neg ip fp e =
     (let m = (if neg then -1 else 1) * int (digits_val (ip @ fp)); x = e - int (length fp)
      in if 0 \<le> x then Dec (m * 10 ^ nat x) 0 else canon m (nat (- x)))"

definition pnum :: "jsstr \<Rightarrow> (jsnum \<times> jsstr) option" where
  "pnum s =
     (let neg = (s \<noteq> [] \<and> hd s = 45); s1 = (if neg then tl s else s) in
      case pnum_int s1 of None \<Rightarrow> None | Some (ip, s2) \<Rightarrow>
      case pnum_frac s2 of None \<Rightarrow> None | Some (fp, s3) \<Rightarrow>
      case pnum_exp s3 of None \<Rightarrow> None | Some (e, s4) \<Rightarrow> Some (num_of_parts neg ip fp e, s4))"

definition pword :: "string \<Rightarrow> jsval \<Rightarrow> jsstr \<Rightarrow> (jsval \<times> jsstr) option" where
  "pword w v s = (if take (length w) s = js w then Some (v, drop (length w) s) else None)"

fun pv :: "nat \<Rightarrow> jsstr \<Rightarrow> (jsval \<times> jsstr) option"
and pelems :: "nat \<Rightarrow> jsstr \<Rightarrow> (jsval list \<times> jsstr) option"
and pmembers :: "nat \<Rightarrow> (jsstr \<times> jsval) list \<Rightarrow> jsstr \<Rightarrow> ((jsstr \<times> jsval) list \<times> jsstr) option"
where
  "pv 0 s = None"
| "pv (Suc n) s =
     (case skip_ws s of [] \<Rightarrow> None
      | c # cs \<Rightarrow>
         if c = 123 then
           (case skip_ws cs of [] \<Rightarrow> None
            | d # ds \<Rightarrow> if d = 125 then Some (ObjV [], ds)
                else map_option (\<lambda>(kvs, r). (ObjV kvs, r)) (pmembers n [] (d # ds)))
         else if c = 91 then
           (case skip_ws cs of [] \<Rightarrow> None
            | d # ds \<Rightarrow> if d = 93 then Some (ArrV [], ds)
                else map_option (\<lambda>(xs, r). (ArrV xs, r)) (pelems n (d # ds)))
         else if c = 34 then map_option (\<lambda>(x, r). (StrV x, r)) (pstr cs)
         else if c = 116 then pword ''true'' (BoolV True) (c # cs)
         else if c = 102 then pword ''false'' (BoolV False) (c # cs)
         else if c = 110 then pword ''null'' Null (c # cs)
         else map_option (\<lambda>(x, r). (NumV x, r)) (pnum (c # cs)))"
| "pelems 0 s = None"
| "pelems (Suc n) s =
     (case pv n s of None \<Rightarrow> None
      | Some (v, r) \<Rightarrow>
         (case skip_ws r of [] \<Rightarrow> None
          | c # cs \<Rightarrow> if c = 44 then cons_fst v (pelems n cs)
                     else if c = 93 then Some ([v], cs) else None))"
| "pmembers 0 acc s = None"
| "pmembers (Suc n) acc s =
     (case skip_ws s of [] \<Rightarrow> None
      | q # qs \<Rightarrow>
         if q \<noteq> 34 then None
         else (case pstr qs of None \<Rightarrow> None
           | Some (k, r) \<Rightarrow>
              (case skip_ws r of [] \<Rightarrow> None
               | c # cs \<Rightarrow>
                  if c \<noteq> 58 then None
                  else (case pv n cs of None \<Rightarrow> None
                    | Some (v, r') \<Rightarrow>
                       (case skip_ws r' of [] \<Rightarrow> None
                        | d # ds \<Rightarrow>
                           if d = 44 then pmembers n (obj_put acc k v) ds
                           else if d = 125 then Some (obj_put acc k v, ds) else None)))))"

definition json_parse :: "jsstr \<Rightarrow> jserr + jsval" where
  "json_parse s =
     (case pv (2 * length s + 1) s of
        Some (v, r) \<Rightarrow> if skip_ws r = [] then Inr v
          else Inl (ErrorObj SyntaxError (js ''Unexpected token in JSON'') None)
      | None \<Rightarrow> Inl (ErrorObj SyntaxError (js ''Unexpected token in JSON'') None))"

section \<open>The parser consumes its input\<close>

lemma cons_fst_Some [simp]:
  "cons_fst x m = Some (ys, r) \<longleftrightarrow> (\<exists>xs. m = Some (xs, r) \<and> ys = x # xs)"
  by (cases m) (auto simp: cons_fst_def)

lemma cons_fst_simps [simp]:
  "cons_fst x None = None"
  "cons_fst x (Some (xs, r)) = Some (x # xs, r)"
  by (simp_all add: cons_fst_def)

lemma length_skip_ws: "length (skip_ws s) \<le> length s"
  by (simp add: skip_ws_def length_dropWhile_le)

lemma skip_ws_Cons_length: "skip_ws s = c # cs \<Longrightarrow> length cs < length s"
  using length_skip_ws [of s] by simp

lemma pstr_shorter: "pstr s = Some (x, r) \<Longrightarrow> length r < length s"
proof (induction s arbitrary: x rule: pstr.induct)
  case (2 c cs)
  show ?case
  proof (cases "c = 34 \<or> c \<noteq> 92")
    case True
    with 2 show ?thesis by (auto split: if_splits)
  next
    case False
    with "2.prems" obtain e cs' where cs: "cs = e # cs'" by (cases cs) auto
    with False 2 show ?thesis
      by (fastforce split: if_splits option.splits)
  qed
qed simp

lemma pnum_int_shorter: "pnum_int s = Some (x, r) \<Longrightarrow> length r < length s"
  by (cases s) (auto simp: pnum_int_def le_imp_less_Suc length_dropWhile_le split: if_splits)

lemma pnum_frac_le: "pnum_frac s = Some (x, r) \<Longrightarrow> length r \<le> length s"
  by (cases s) (auto simp: pnum_frac_def Let_def le_SucI length_dropWhile_le split: if_splits)

lemma pnum_exp_le: "pnum_exp s = Some (x, r) \<Longrightarrow> length r \<le> length s"
proof (cases s)
  case (Cons c cs)
  have "length (dropWhile is_digit (tl cs)) \<le> length cs"
    using length_dropWhile_le [of is_digit "tl cs"] by simp
  moreover have "length (dropWhile is_digit cs) \<le> length cs"
    by (rule length_dropWhile_le)
  moreover assume "pnum_exp s = Some (x, r)"
  ultimately show ?thesis using Cons by (auto simp: pnum_exp_def Let_def split: if_splits)
qed (simp add: pnum_exp_def)

lemma pnum_shorter:
  assumes "pnum s = Some (x, r)"
  shows "length r < length s"
proof -
  let ?s1 = "if s \<noteq> [] \<and> hd s = 45 then tl s else s"
  have "length ?s1 \<le> length s" by simp
  moreover obtain ip s2 fp s3 e where "pnum_int ?s1 = Some (ip, s2)"
    "pnum_frac s2 = Some (fp, s3)" "pnum_exp s3 = Some (e, r)"
    using assms unfolding pnum_def Let_def
    by (auto split: option.splits split del: if_split)
  ultimately obtain s1 ip s2 fp s3 e where *: "length s1 \<le> length s" "pnum_int s1 = Some (ip, s2)"
    "pnum_frac s2 = Some (fp, s3)" "pnum_exp s3 = Some (e, r)"
    by blast
  have "length r \<le> length s2"
    using pnum_exp_le [OF *(4)] pnum_frac_le [OF *(3)] by simp
  with pnum_int_shorter [OF *(2)] *(1) show ?thesis by simp
qed

lemma pword_shorter: "pword w v s = Some (x, r) \<Longrightarrow> w \<noteq> [] \<Longrightarrow> s \<noteq> [] \<Longrightarrow> length r < length s"
  by (auto simp: pword_def split: if_splits)

lemma parse_shorter:
  "pv n s = Some (v, r) \<Longrightarrow> length r < length s"
  "pelems n s = Some (vs, r) \<Longrightarrow> length r < length s"
  "pmembers n acc s = Some (kvs, r) \<Longrightarrow> length r < length s"
proof (induction n s and n s and n acc s arbitrary: v r and vs r and kvs r
    rule: pv_pelems_pmembers.induct)
  case (2 n s)
  from "2.prems" obtain c cs where s: "skip_ws s = c # cs" by (auto split: list.splits)
  have le: "length (c # cs) \<le> length s" using length_skip_ws [of s] s by simp
  consider "c = 123" | "c = 91" | "c \<noteq> 123" "c \<noteq> 91" by blast
  then show ?case
  proof cases
    case 1
    with "2.prems" s obtain d ds where ds: "skip_ws cs = d # ds" by (auto split: list.splits)
    from skip_ws_Cons_length [OF ds] le have "length (d # ds) < length s" by simp
    with 1 s ds "2.prems" "2.IH"(1) [OF s 1 ds] show ?thesis
      by (fastforce split: if_splits)
  next
    case 2
    then have "c \<noteq> 123" by simp
    with 2 \<open>pv (Suc n) s = Some (v, r)\<close> s obtain d ds where ds: "skip_ws cs = d # ds"
      by (auto split: list.splits)
    from skip_ws_Cons_length [OF ds] le have "length (d # ds) < length s" by simp
    with 2 s ds \<open>pv (Suc n) s = Some (v, r)\<close> "2.IH"(2) [OF s \<open>c \<noteq> 123\<close> 2 ds] show ?thesis
      by (fastforce split: if_splits)
  next
    case 3
    with "2.prems" s have "length r < length (c # cs)"
      by (auto split: if_splits dest: pstr_shorter pnum_shorter pword_shorter)
    with le show ?thesis by simp
  qed
next
  case (4 n s)
  from "4.prems" obtain v r1 where v: "pv n s = Some (v, r1)" by (auto split: option.splits)
  with "4.prems" obtain c cs where c: "skip_ws r1 = c # cs" by (auto split: list.splits)
  have "length cs < length r1" "length r1 < length s"
    using skip_ws_Cons_length [OF c] "4.IH"(1) [OF v] by auto
  with "4.prems" v c "4.IH"(2) [OF v refl c] show ?case by (fastforce split: if_splits)
next
  case (6 n acc s)
  from "6.prems" obtain q qs where q: "skip_ws s = q # qs" "q = 34"
    by (auto split: list.splits if_splits)
  with "6.prems" obtain k r1 where k: "pstr qs = Some (k, r1)" by (auto split: option.splits)
  with "6.prems" q obtain c cs where c: "skip_ws r1 = c # cs" "c = 58"
    by (auto split: list.splits if_splits)
  with "6.prems" q k obtain w r2 where w: "pv n cs = Some (w, r2)" by (auto split: option.splits)
  with "6.prems" q k c obtain d ds where d: "skip_ws r2 = d # ds" by (auto split: list.splits)
  have lens: "length qs < length s" "length r1 < length qs" "length cs < length r1"
    "length r2 < length cs" "length ds < length r2"
    using skip_ws_Cons_length [OF q(1)] pstr_shorter [OF k] skip_ws_Cons_length [OF c(1)]
      "6.IH"(1) [OF q(1) _ k refl c(1)] skip_ws_Cons_length [OF d] q(2) c(2) w by auto
  show ?case
  proof (cases "d = 44")
    case True
    with "6.prems" q k c w d have "pmembers n (obj_put acc k w) ds = Some (kvs, r)" by simp
    with "6.IH"(2) [OF q(1) _ k refl c(1) _ w refl d True] q(2) c(2) have "length r < length ds"
      by simp
    with lens show ?thesis by simp
  next
    case False
    with "6.prems" q k c w d lens show ?thesis by (auto split: if_splits)
  qed
qed simp_all

section \<open>Enough fuel\<close>

text \<open>
  A nested value costs two units (\<open>pv\<close> and the loop over elements or members) and consumes at least
  one code unit, so \<open>2 * length + 1\<close> units are enough, and more change nothing.
\<close>

lemma parse_fuel_Suc:
  "2 * length s + 1 \<le> n \<Longrightarrow> pv (Suc n) s = pv n s"
  "2 * length s + 2 \<le> n \<Longrightarrow> pelems (Suc n) s = pelems n s"
  "2 * length s + 2 \<le> n \<Longrightarrow> pmembers (Suc n) acc s = pmembers n acc s"
proof (induction n arbitrary: s acc)
  case (Suc n)
  {
    case 1
    show ?case
    proof (cases "skip_ws s")
      case (Cons c cs)
      note s = Cons
      show ?thesis
      proof (cases "skip_ws cs")
        case (Cons d ds)
        have "length (d # ds) < length s"
          using skip_ws_Cons_length [OF s] length_skip_ws [of cs] Cons by simp
        with 1 have "2 * length (d # ds) + 2 \<le> n" by simp
        then have "pelems (Suc n) (d # ds) = pelems n (d # ds)"
          and "\<And>a. pmembers (Suc n) a (d # ds) = pmembers n a (d # ds)"
          using Suc.IH(2,3) by blast+
        then show ?thesis by (simp only: pv.simps s Cons list.case)
      qed (simp add: s)
    qed simp
  next
    case 2
    show ?case
    proof (cases "pv n s")
      case None
      with Suc.IH(1) [of s] 2 show ?thesis by simp
    next
      case (Some vr)
      then obtain v r where v: "pv n s = Some (v, r)" by (cases vr) auto
      have "pelems (Suc n) cs = pelems n cs" if "skip_ws r = c # cs" for c cs
        using Suc.IH(2) [of cs] 2 parse_shorter(1) [OF v] skip_ws_Cons_length [OF that] by simp
      with v Suc.IH(1) [of s] 2 show ?thesis
        by (simp split: list.split)
    qed
  next
    case 3
    have ih: "pv (Suc n) cs = pv n cs" if "length cs < length s" for cs
      using Suc.IH(1) [of cs] 3 that by simp
    have ih': "pmembers (Suc n) a cs = pmembers n a cs" if "length cs < length s" for a cs
      using Suc.IH(3) [of cs a] 3 that by simp
    show ?case
    proof (cases "skip_ws s")
      case (Cons q qs)
      note q = Cons
      show ?thesis
      proof (cases "pstr qs")
        case (Some kr)
        then obtain k r where k: "pstr qs = Some (k, r)" by (cases kr) auto
        show ?thesis
        proof (cases "skip_ws r")
          case (Cons c cs)
          have len: "length cs < length s"
            using skip_ws_Cons_length [OF q] pstr_shorter [OF k] skip_ws_Cons_length [OF Cons] by simp
          have "pmembers (Suc n) a ds = pmembers n a ds"
            if "pv n cs = Some (v, r')" "skip_ws r' = d # ds" for a v r' d ds
            using ih' [of ds a] len parse_shorter(1) [OF that(1)] skip_ws_Cons_length [OF that(2)]
            by simp
          with q k Cons ih [OF len] show ?thesis
            by (simp split: option.split list.split prod.split)
        qed (use q k in simp)
      qed (use q in simp)
    qed simp
  }
qed simp_all

lemma pv_enough: "2 * length s + 1 \<le> n \<Longrightarrow> pv n s = pv (2 * length s + 1) s"
proof (induction n rule: nat_induct_at_least [where m = "2 * length s + 1"])
  case (Suc n)
  then show ?case using parse_fuel_Suc(1) [of s n] by simp
qed (simp_all)

lemma json_parse_of_pv:
  assumes "pv n s = Some (v, [])" and "2 * length s + 1 \<le> n"
  shows "json_parse s = Inr v"
  using assms pv_enough [OF assms(2)] by (simp add: json_parse_def skip_ws_def)

section \<open>Round trip\<close>

text \<open>
  The values that print without loss: no \<open>undefined\<close>, integral numbers below \<open>10^21\<close> and distinct
  keys.  Every entry the bridge writes is one (\<open>RedisStore\<close>).
\<close>

fun json_ok :: "jsval \<Rightarrow> bool" where
  "json_ok Undef = False"
| "json_ok Null = True"
| "json_ok (BoolV b) = True"
| "json_ok (NumV NaN) = False"
| "json_ok (NumV (Dec m k)) = (k = 0 \<and> \<bar>m\<bar> < 10 ^ 21)"
| "json_ok (StrV s) = True"
| "json_ok (ArrV xs) = list_all json_ok xs"
| "json_ok (ObjV kvs) = (distinct (map fst kvs) \<and> list_all (\<lambda>(k, v). json_ok v) kvs)"

subsection \<open>Strings\<close>

lemma hex_val_hex_digit: "d < 16 \<Longrightarrow> hex_val (hex_digit d) = Some d"
proof -
  assume "d < 16"
  then have "unat (hex_digit d) = (if d < 10 then 48 + d else 87 + d)"
    using unat_of_nat [of "48 + d", where 'a = 16] unat_of_nat [of "87 + d", where 'a = 16]
    by (simp add: hex_digit_def)
  with \<open>d < 16\<close> show ?thesis by (auto simp: hex_val_def Let_def)
qed

lemma hex4_val_hex4: "hex4_val (hex4 c) = Some c"
proof -
  let ?n = "unat c"
  have lt: "?n < 65536" by (rule order_less_le_trans [OF unsigned_less]) simp
  then have "?n div 4096 < 16" by simp
  moreover have "4096 * (?n div 4096) + 256 * (?n div 256 mod 16) + 16 * (?n div 16 mod 16) + ?n mod 16 = ?n"
  proof -
    have "?n div 256 = ?n div 16 div 16" "?n div 4096 = ?n div 256 div 16"
      by (simp_all flip: div_mult2_eq)
    then show ?thesis
      using mult_div_mod_eq [of 16 ?n] mult_div_mod_eq [of 16 "?n div 16"]
        mult_div_mod_eq [of 16 "?n div 256"] by linarith
  qed
  ultimately show ?thesis
    by (simp add: hex4_def Let_def hex_val_hex_digit flip: of_nat_mult of_nat_add)
qed

lemma length_hex4 [simp]: "length (hex4 c) = 4"
  by (simp add: hex4_def Let_def)

lemma pstr_unicode_escape:
  "pstr (unicode_escape c @ s) = cons_fst c (pstr s)"
  using length_hex4 [of c] by (simp add: unicode_escape_def hex4_val_hex4)

lemma pstr_plain: "c \<noteq> 34 \<Longrightarrow> c \<noteq> 92 \<Longrightarrow> \<not> unat c < 32 \<Longrightarrow> pstr (c # s) = cons_fst c (pstr s)"
  by simp

lemma surrogate_plain: "is_high c \<or> is_low c \<Longrightarrow> c \<noteq> 34 \<and> c \<noteq> 92 \<and> \<not> unat c < 32"
  by (auto simp: is_high_def is_low_def)

lemma pstr_quote_unit: "pstr (quote_unit c @ s) = cons_fst c (pstr s)"
proof (cases "c \<in> {8, 9, 10, 12, 13, 34, 92}")
  case True
  then show ?thesis by (auto simp: quote_unit_def unescape_def)
next
  case False
  then show ?thesis
    by (simp add: quote_unit_def pstr_unicode_escape pstr_plain del: pstr.simps)
qed

lemma pstr_quote_body: "pstr (quote_body s @ t) = map_option (\<lambda>(x, r). (s @ x, r)) (pstr t)"
proof (induction s rule: quote_body.induct)
  case 1
  show ?case by (cases "pstr t") simp_all
next
  case (2 c)
  show ?case by (simp add: pstr_quote_unit cons_fst_def del: pstr.simps)
next
  case (3 c d cs)
  show ?case
  proof (cases "is_high c \<and> is_low d")
    case True
    then have "pstr (c # d # quote_body cs @ t) = cons_fst c (cons_fst d (pstr (quote_body cs @ t)))"
      using surrogate_plain [of c] surrogate_plain [of d] by (simp add: pstr_plain del: pstr.simps)
    with True 3(1) show ?thesis by (cases "pstr t") (auto simp del: pstr.simps)
  next
    case False
    with 3(2) show ?thesis
      by (cases "pstr t") (auto simp: pstr_quote_unit simp del: pstr.simps)
  qed
qed

lemma pstr_json_quote: "pstr (quote_body s @ 34 # r) = Some (s, r)"
  by (simp add: pstr_quote_body)

subsection \<open>Numbers\<close>

text \<open>What may follow a value: the end, a comma, or the end of the enclosing container.\<close>

definition ends_value :: "jsstr \<Rightarrow> bool" where
  "ends_value r \<longleftrightarrow> r = [] \<or> hd r \<in> {44, 93, 125}"

lemma ends_value_simps [simp]: "ends_value []" "ends_value (44 # r)" "ends_value (93 # r)" "ends_value (125 # r)"
  by (simp_all add: ends_value_def)

lemma ends_value_cases:
  assumes "ends_value r"
  obtains "r = []" | c cs where "r = c # cs" "c \<in> {44, 93, 125}"
  using assms by (cases r) (auto simp: ends_value_def)

lemma ends_value_not_digit: "ends_value r \<Longrightarrow> r = [] \<or> \<not> is_digit (hd r)"
  by (auto simp: ends_value_def is_digit_def)

lemma hd_nat_digits: "is_digit (hd (nat_digits n))"
  using nat_digits_all [of n] by (cases "nat_digits n") (auto dest: arg_cong [where f = "(=) []"])

lemma nat_digits_0 [simp]: "nat_digits 0 = [48]"
  by (subst nat_digits.simps) (simp add: digit_def)

lemma pnum_int_nat_digits:
  assumes "ends_value r"
  shows "pnum_int (nat_digits n @ r) = Some (nat_digits n, r)"
proof (cases "n = 0")
  case False
  obtain c cs where c: "nat_digits n = c # cs" by (cases "nat_digits n") auto
  have "c \<noteq> 48" "is_digit c"
    using nat_digits_leading [OF False] hd_nat_digits [of n] c by (auto simp: digit_def)
  moreover have "takeWhile is_digit (nat_digits n @ r) = nat_digits n"
    "dropWhile is_digit (nat_digits n @ r) = r"
    using takeWhile_append_stop [OF nat_digits_all ends_value_not_digit [OF assms]]
      dropWhile_append_stop [OF nat_digits_all ends_value_not_digit [OF assms]] by auto
  ultimately show ?thesis using c by (simp add: pnum_int_def)
qed (simp add: pnum_int_def)

lemma pnum_frac_stop: "ends_value r \<Longrightarrow> pnum_frac r = Some ([], r)"
  by (auto simp: pnum_frac_def elim: ends_value_cases)

lemma pnum_exp_stop: "ends_value r \<Longrightarrow> pnum_exp r = Some (0, r)"
  by (auto simp: pnum_exp_def elim: ends_value_cases)

lemma pnum_int_str:
  assumes "ends_value r"
  shows "pnum (int_str m @ r) = Some (num_int m, r)"
proof -
  have "hd (nat_digits n @ r) \<noteq> 45" for n
    using hd_nat_digits [of n] by (cases "nat_digits n") (auto simp: is_digit_def dest: arg_cong [where f = "(=) []"])
  then show ?thesis
    by (auto simp: pnum_def Let_def int_str_def js_Cons num_of_parts_def
        pnum_int_nat_digits [OF assms] pnum_frac_stop [OF assms] pnum_exp_stop [OF assms])
qed

subsection \<open>Values\<close>

lemma skip_ws_plain: "\<not> json_ws c \<Longrightarrow> skip_ws (c # s) = c # s"
  by (simp add: skip_ws_def)

lemma skip_ws_stop: "ends_value r \<Longrightarrow> skip_ws r = r"
  by (auto simp: skip_ws_def json_ws_def elim: ends_value_cases)

text \<open>The first unit of a printed value: never white space, and never a closing bracket.\<close>

lemma hd_int_str: "hd (int_str m) = 45 \<or> is_digit (hd (int_str m))"
  using hd_nat_digits by (simp add: int_str_def js_Cons)

lemma int_str_ne [simp]: "int_str m \<noteq> []"
  by (simp add: int_str_def)

lemma digit_range: "is_digit c \<Longrightarrow> c \<noteq> 123 \<and> c \<noteq> 91 \<and> c \<noteq> 34 \<and> c \<noteq> 116 \<and> c \<noteq> 102 \<and> c \<noteq> 110
    \<and> c \<noteq> 93 \<and> c \<noteq> 125 \<and> \<not> json_ws c"
  by (auto simp: is_digit_def json_ws_def)

lemma stringify_hd:
  assumes "json_ok v"
  obtains c cs where "stringify v = c # cs" "\<not> json_ws c" "c \<noteq> 93" "c \<noteq> 125"
proof (cases v)
  case (NumV n)
  then obtain m where "stringify v = int_str m" using assms by (cases n) auto
  moreover obtain c cs where "int_str m = c # cs" by (cases "int_str m") auto
  moreover from this hd_int_str [of m] have "\<not> json_ws c \<and> c \<noteq> 93 \<and> c \<noteq> 125"
    by (auto dest: digit_range simp: json_ws_def)
  ultimately show thesis using that by auto
next
  case (BoolV b)
  then show thesis using that by (cases b) (auto simp: js_Cons json_ws_def)
qed (use assms that in \<open>auto simp: js_Cons json_ws_def json_quote_def\<close>)

lemma pv_num:
  assumes "ends_value r"
  shows "pv (Suc n) (int_str m @ r) = Some (int_val m, r)"
proof -
  obtain c cs where c: "int_str m = c # cs" by (cases "int_str m") auto
  have "c = 45 \<or> is_digit c" using hd_int_str [of m] c by simp
  then have *: "c \<noteq> 123 \<and> c \<noteq> 91 \<and> c \<noteq> 34 \<and> c \<noteq> 116 \<and> c \<noteq> 102 \<and> c \<noteq> 110 \<and> \<not> json_ws c"
    by (auto dest: digit_range simp: json_ws_def)
  then have "skip_ws (int_str m @ r) = c # cs @ r" by (simp add: c skip_ws_plain)
  with * pnum_int_str [OF assms, of m] show ?thesis by (simp add: c)
qed

text \<open>With enough fuel the parser reads back what was printed, and stops where the print ended.\<close>

definition reads_back :: "jsval \<Rightarrow> bool" where
  "reads_back v \<longleftrightarrow> (\<exists>N. \<forall>n\<ge>N. \<forall>r. ends_value r \<longrightarrow> pv n (stringify v @ r) = Some (v, r))"

lemma reads_backI:
  assumes "\<And>n r. ends_value r \<Longrightarrow> pv (Suc n) (stringify v @ r) = Some (v, r)"
  shows "reads_back v"
proof -
  have "pv n (stringify v @ r) = Some (v, r)" if "1 \<le> n" "ends_value r" for n r
    using assms [of r "n - 1"] that by simp
  then show ?thesis unfolding reads_back_def by blast
qed

lemma pelems_reads_back:
  assumes "xs \<noteq> []" and "list_all reads_back xs"
  shows "\<exists>N. \<forall>n\<ge>N. \<forall>r. pelems n (join [44] (map stringify xs) @ 93 # r) = Some (xs, r)"
  using assms
proof (induction xs rule: list_nonempty_induct)
  case (single x)
  then obtain N where N: "\<And>n r. N \<le> n \<Longrightarrow> ends_value r \<Longrightarrow> pv n (stringify x @ r) = Some (x, r)"
    by (auto simp: reads_back_def)
  have "pelems n (join [44] (map stringify [x]) @ 93 # r) = Some ([x], r)" if "Suc N \<le> n" for n r
    using that N [of "n - 1" "93 # r"] by (cases n) (simp_all add: skip_ws_stop)
  then show ?case by blast
next
  case (cons x xs)
  obtain N1 where N1: "\<And>n r. N1 \<le> n \<Longrightarrow> ends_value r \<Longrightarrow> pv n (stringify x @ r) = Some (x, r)"
    using cons.prems by (auto simp: reads_back_def)
  obtain N2 where N2: "\<And>n r. N2 \<le> n \<Longrightarrow>
      pelems n (join [44] (map stringify xs) @ 93 # r) = Some (xs, r)"
    using cons by auto
  have "pelems n (join [44] (map stringify (x # xs)) @ 93 # r) = Some (x # xs, r)"
    if "Suc (max N1 N2) \<le> n" for n r
    using that N1 [of "n - 1" "44 # join [44] (map stringify xs) @ 93 # r"] N2 [of "n - 1" r]
    by (cases n) (simp_all add: join_ne cons.hyps skip_ws_stop)
  then show ?case by blast
qed

definition member_str :: "jsstr \<times> jsval \<Rightarrow> jsstr" where
  "member_str kv = json_quote (fst kv) @ 58 # stringify (snd kv)"

lemma obj_put_fresh: "k \<notin> fst ` set kvs \<Longrightarrow> obj_put kvs k v = kvs @ [(k, v)]"
  by (induction kvs) auto

lemma skip_ws_quote: "skip_ws (34 # s) = 34 # s" "skip_ws (58 # s) = 58 # s"
  by (simp_all add: skip_ws_def json_ws_def)

lemma pmembers_Suc_member:
  assumes "\<And>r. ends_value r \<Longrightarrow> pv n (stringify v @ r) = Some (v, r)" and "k \<notin> fst ` set acc"
  shows "pmembers (Suc n) acc (member_str (k, v) @ 44 # s) = pmembers n (acc @ [(k, v)]) s"
    and "pmembers (Suc n) acc (member_str (k, v) @ 125 # s) = Some (acc @ [(k, v)], s)"
  using assms(1) [of "44 # s"] assms(1) [of "125 # s"] obj_put_fresh [OF assms(2), of v]
  by (simp_all add: member_str_def json_quote_def skip_ws_quote skip_ws_stop pstr_json_quote)

lemma pmembers_reads_back:
  assumes "kvs \<noteq> []" and "distinct (map fst (acc @ kvs))" and "list_all (\<lambda>kv. reads_back (snd kv)) kvs"
  shows "\<exists>N. \<forall>n\<ge>N. \<forall>r. pmembers n acc (join [44] (map member_str kvs) @ 125 # r) = Some (acc @ kvs, r)"
  using assms
proof (induction kvs arbitrary: acc rule: list_nonempty_induct)
  case (single kv)
  obtain k v where kv: "kv = (k, v)" by (cases kv)
  with single.prems obtain N where N: "\<And>n r. N \<le> n \<Longrightarrow> ends_value r \<Longrightarrow> pv n (stringify v @ r) = Some (v, r)"
    by (auto simp: reads_back_def)
  have fresh: "k \<notin> fst ` set acc" using single.prems kv by auto
  have "pmembers n acc (join [44] (map member_str [kv]) @ 125 # r) = Some (acc @ [kv], r)"
    if "Suc N \<le> n" for n r
    using that pmembers_Suc_member(2) [OF N fresh, of "n - 1" r] by (cases n) (simp_all add: kv)
  then show ?case by blast
next
  case (cons kv kvs)
  obtain k v where kv: "kv = (k, v)" by (cases kv)
  with cons.prems obtain N1 where N1: "\<And>n r. N1 \<le> n \<Longrightarrow> ends_value r \<Longrightarrow> pv n (stringify v @ r) = Some (v, r)"
    by (auto simp: reads_back_def)
  have fresh: "k \<notin> fst ` set acc" using cons.prems kv by auto
  have "distinct (map fst ((acc @ [kv]) @ kvs))" "list_all (\<lambda>kv. reads_back (snd kv)) kvs"
    using cons.prems by simp_all
  from cons.IH [OF this] obtain N2 where N2: "\<And>n r. N2 \<le> n \<Longrightarrow>
      pmembers n (acc @ [kv]) (join [44] (map member_str kvs) @ 125 # r) = Some ((acc @ [kv]) @ kvs, r)"
    by blast
  have "pmembers n acc (join [44] (map member_str (kv # kvs)) @ 125 # r) = Some (acc @ kv # kvs, r)"
    if "Suc (max N1 N2) \<le> n" for n r
    using that N2 [of "n - 1" r]
      pmembers_Suc_member(1) [OF N1 fresh, of "n - 1" "join [44] (map member_str kvs) @ 125 # r"]
    by (cases n) (simp_all add: join_ne cons.hyps kv del: pmembers.simps)
  then show ?case by blast
qed

lemma stringify_obj_ok:
  assumes "json_ok (ObjV kvs)"
  shows "stringify (ObjV kvs) = 123 # join [44] (map member_str kvs) @ [125]"
proof -
  have "filter (\<lambda>(k, v). v \<noteq> Undef) kvs = kvs"
    using assms by (auto simp: filter_id_conv list_all_iff)
  moreover have "(\<lambda>(k, v). json_quote k @ 58 # stringify v) = member_str"
    by (auto simp: member_str_def)
  ultimately show ?thesis by simp
qed

lemma reads_back_array:
  assumes "list_all json_ok xs" and "list_all reads_back xs"
  shows "reads_back (ArrV xs)"
proof (cases "xs = []")
  case True
  then show ?thesis by (auto intro!: reads_backI simp: skip_ws_def json_ws_def)
next
  case False
  obtain N where N: "\<And>n r. N \<le> n \<Longrightarrow> pelems n (join [44] (map stringify xs) @ 93 # r) = Some (xs, r)"
    using pelems_reads_back [OF False assms(2)] by blast
  obtain x ys where xs: "xs = x # ys" using False by (cases xs) auto
  with assms(1) obtain c cs where c: "stringify x = c # cs" "\<not> json_ws c" "c \<noteq> 93"
    by (auto elim: stringify_hd)
  then have j: "join [44] (map stringify xs) = c # cs @ (if ys = [] then [] else 44 # join [44] (map stringify ys))"
    by (simp add: xs join_ne)
  have "pv n (stringify (ArrV xs) @ r) = Some (ArrV xs, r)" if "Suc N \<le> n" for n r
    using that N [of "n - 1" r] c by (cases n) (simp_all add: j skip_ws_plain skip_ws_stop json_ws_def del: pelems.simps)
  then show ?thesis unfolding reads_back_def by blast
qed

lemma reads_back_object:
  assumes "json_ok (ObjV kvs)" and "list_all (\<lambda>kv. reads_back (snd kv)) kvs"
  shows "reads_back (ObjV kvs)"
proof (cases "kvs = []")
  case True
  then show ?thesis by (auto intro!: reads_backI simp: skip_ws_def json_ws_def)
next
  case False
  then obtain N where N: "\<And>n r. N \<le> n \<Longrightarrow>
      pmembers n [] (join [44] (map member_str kvs) @ 125 # r) = Some (kvs, r)"
    using pmembers_reads_back [of kvs "[]"] assms by auto
  obtain cs where j: "join [44] (map member_str kvs) = 34 # cs"
    using False by (cases kvs) (auto simp: join_Cons member_str_def json_quote_def)
  have "pv n (stringify (ObjV kvs) @ r) = Some (ObjV kvs, r)" if "Suc N \<le> n" for n r
    using that N [of "n - 1" r]
    by (cases n) (simp_all add: stringify_obj_ok [OF assms(1)] j skip_ws_quote
        skip_ws_plain json_ws_def del: pmembers.simps stringify.simps)
  then show ?thesis unfolding reads_back_def by blast
qed

lemma json_ok_reads_back: "json_ok v \<Longrightarrow> reads_back v"
proof (induction v)
  case (NumV n)
  then obtain m where "n = num_int m" "\<bar>m\<bar> < 10 ^ 21" by (cases n) auto
  then show ?case by (auto intro!: reads_backI simp: pv_num simp del: pv.simps)
next
  case (StrV s)
  show ?case
    by (auto intro!: reads_backI simp: json_quote_def skip_ws_quote pstr_json_quote)
next
  case (ArrV xs)
  then show ?case by (auto intro!: reads_back_array simp: list_all_iff)
next
  case (ObjV kvs)
  then show ?case by (intro reads_back_object) (fastforce simp: list_all_iff)+
next
  case (BoolV b)
  show ?case by (rule reads_backI) (cases b, simp_all add: js_Cons pword_def skip_ws_def json_ws_def)
qed (auto intro!: reads_backI simp: js_Cons pword_def skip_ws_def json_ws_def)

lemma json_parse_stringify: "json_ok v \<Longrightarrow> json_parse (stringify v) = Inr v"
proof -
  assume "json_ok v"
  then obtain N where "\<And>n r. N \<le> n \<Longrightarrow> ends_value r \<Longrightarrow> pv n (stringify v @ r) = Some (v, r)"
    using json_ok_reads_back [of v] unfolding reads_back_def by blast
  then have "pv (max N (2 * length (stringify v) + 1)) (stringify v @ []) = Some (v, [])"
    by (meson max.cobounded1 ends_value_simps(1))
  from this [unfolded append_Nil2] max.cobounded2 show ?thesis by (rule json_parse_of_pv)
qed

lemma stringify_inj: "json_ok v \<Longrightarrow> json_ok w \<Longrightarrow> stringify v = stringify w \<Longrightarrow> v = w"
  by (metis json_parse_stringify sum.inject(2))

end
