(* ===== verification/Effects.thy ===== *)
theory Effects
  imports Json
begin

text \<open>
  Asynchronous code.  An \<open>async\<close> function of the sources is an effect tree \<open>'a act\<close>: it returns, it
  throws, or it performs one request (a Redis command, an HTTP exchange, reading the clock, a timer,
  random bytes, starting a task it does not wait for) and goes on with the response.  The trees make
  no assumption on the services: any response, a failure included, is a branch.  \<open>Diverge\<close> marks a
  retry loop cut off by its fuel; it is not an exception, no handler sees it.

  Three readings of a tree are used: \<open>run\<close> executes it against a service (a function from the state of
  the outside world and a request to a response and the next state), \<open>safe\<close> states what every request,
  result and exception of a tree satisfies whatever the responses are, and \<open>Concurrency\<close> interleaves
  the trees of several tasks.
\<close>

section \<open>Requests and responses\<close>

datatype http_method = GET | POST | DELETE

record http_req =
  rq_method :: http_method
  rq_url :: jsstr
  rq_params :: "(string \<times> jsval) list"
  rq_body :: "jsval option"
  rq_timeout :: "jsnum option"

record http_resp =
  rs_status :: nat
  rs_data :: jsval

text \<open>\<open>SET k v\<close>, \<open>SET k v EX ttl\<close>, \<open>SET k v EX ttl NX\<close>\<close>

datatype set_mode = SetPlain | SetEx jsval | SetNxEx nat

text \<open>The calls of the bridge that are started and not awaited: \<open>provisionVMAsync\<close>, the anonymous restart
  function and \<open>doForward\<close>.\<close>

datatype task =
    ProvisionTask jsval
  | RestartTask jsval
  | ForwardTask jsval jsval

datatype req =
    RedisGet jsstr
  | RedisSet jsstr jsstr set_mode
  | RedisDel jsstr
  | RedisExists jsstr
  | Http http_req
  | DateNow
  | Sleep nat
  | RandomBytes nat
  | RandomInt nat
  | Spawn task

datatype resp =
    Failed jserr
  | GotStr "jsstr option"
  | GotBool bool
  | GotNum int
  | GotBytes bytes
  | GotHttp http_resp
  | Done

section \<open>Effect trees\<close>

datatype 'a act =
    Return 'a
  | Throw jserr
  | Diverge
  | Perform req "resp \<Rightarrow> 'a act"

text \<open>\<open>await m\<close> and going on, \<open>try m catch h\<close>, \<open>try m finally f\<close>.\<close>

primrec await :: "'a act \<Rightarrow> ('a \<Rightarrow> 'b act) \<Rightarrow> 'b act" where
  "await (Return x) f = f x"
| "await (Throw e) f = Throw e"
| "await Diverge f = Diverge"
| "await (Perform r k) f = Perform r (\<lambda>x. await (k x) f)"

primrec try_catch :: "'a act \<Rightarrow> (jserr \<Rightarrow> 'a act) \<Rightarrow> 'a act" where
  "try_catch (Return x) h = Return x"
| "try_catch (Throw e) h = h e"
| "try_catch Diverge h = Diverge"
| "try_catch (Perform r k) h = Perform r (\<lambda>x. try_catch (k x) h)"

primrec try_finally :: "'a act \<Rightarrow> unit act \<Rightarrow> 'a act" where
  "try_finally (Return x) f = await f (\<lambda>_. Return x)"
| "try_finally (Throw e) f = await f (\<lambda>_. Throw e)"
| "try_finally Diverge f = Diverge"
| "try_finally (Perform r k) f = Perform r (\<lambda>x. try_finally (k x) f)"

text \<open>A synchronous computation that may throw.\<close>

definition lift_sum :: "jserr + 'a \<Rightarrow> 'a act" where
  "lift_sum m = (case m of Inl e \<Rightarrow> Throw e | Inr x \<Rightarrow> Return x)"

lemma lift_sum_simps [simp]:
  "lift_sum (Inl e) = Throw e"
  "lift_sum (Inr x) = Return x"
  by (simp_all add: lift_sum_def)

lemma await_Return_right [simp]: "await m Return = m"
  by (induction m) simp_all

lemma try_catch_Throw [simp]: "try_catch m Throw = m"
  by (induction m) simp_all

section \<open>The requests of the program\<close>

text \<open>
  A service answers each request with its own kind of response or with a failure; an answer of
  another kind cannot come from the client libraries and is treated as a failure.
\<close>

definition bad_response :: jserr where
  "bad_response = ErrorObj ServiceError (js ''unexpected response'') None"

fun fail_of :: "resp \<Rightarrow> jserr" where
  "fail_of (Failed e) = e"
| "fail_of _ = bad_response"

definition redis_get :: "jsstr \<Rightarrow> jsstr option act" where
  "redis_get k = Perform (RedisGet k) (\<lambda>r. case r of GotStr s \<Rightarrow> Return s | _ \<Rightarrow> Throw (fail_of r))"

definition redis_set :: "jsstr \<Rightarrow> jsstr \<Rightarrow> set_mode \<Rightarrow> bool act" where
  "redis_set k v m = Perform (RedisSet k v m) (\<lambda>r. case r of GotBool b \<Rightarrow> Return b | _ \<Rightarrow> Throw (fail_of r))"

definition redis_del :: "jsstr \<Rightarrow> int act" where
  "redis_del k = Perform (RedisDel k) (\<lambda>r. case r of GotNum n \<Rightarrow> Return n | _ \<Rightarrow> Throw (fail_of r))"

definition redis_exists :: "jsstr \<Rightarrow> int act" where
  "redis_exists k = Perform (RedisExists k) (\<lambda>r. case r of GotNum n \<Rightarrow> Return n | _ \<Rightarrow> Throw (fail_of r))"

definition http :: "http_req \<Rightarrow> http_resp act" where
  "http q = Perform (Http q) (\<lambda>r. case r of GotHttp s \<Rightarrow> Return s | _ \<Rightarrow> Throw (fail_of r))"

definition date_now :: "int act" where
  "date_now = Perform DateNow (\<lambda>r. case r of GotNum t \<Rightarrow> Return t | _ \<Rightarrow> Throw (fail_of r))"

text \<open>A timer always fires.\<close>

definition sleep :: "nat \<Rightarrow> unit act" where
  "sleep ms = Perform (Sleep ms) (\<lambda>_. Return ())"

definition random_bytes :: "nat \<Rightarrow> bytes act" where
  "random_bytes n = Perform (RandomBytes n) (\<lambda>r. case r of GotBytes b \<Rightarrow> Return b | _ \<Rightarrow> Throw (fail_of r))"

text \<open>\<open>Math.floor(Math.random() * n)\<close>\<close>

definition random_int :: "nat \<Rightarrow> int act" where
  "random_int n = Perform (RandomInt n) (\<lambda>r. case r of GotNum i \<Rightarrow> Return i | _ \<Rightarrow> Throw (fail_of r))"

definition spawn :: "task \<Rightarrow> unit act" where
  "spawn t = Perform (Spawn t) (\<lambda>_. Return ())"

text \<open>\<open>Math.floor(Date.now() / 1000)\<close>\<close>

definition now_seconds :: "int act" where
  "now_seconds = await date_now (\<lambda>t. Return (t div 1000))"

lemmas request_defs = redis_get_def redis_set_def redis_del_def redis_exists_def http_def
  date_now_def sleep_def random_bytes_def random_int_def spawn_def

section \<open>Running against a service\<close>

datatype 'a outcome = Returned 'a | Threw jserr | Exhausted

type_synonym 'w service = "'w \<Rightarrow> req \<Rightarrow> resp \<times> 'w"

primrec run :: "'w service \<Rightarrow> 'a act \<Rightarrow> 'w \<Rightarrow> 'a outcome \<times> 'w" where
  "run sv (Return x) w = (Returned x, w)"
| "run sv (Throw e) w = (Threw e, w)"
| "run sv Diverge w = (Exhausted, w)"
| "run sv (Perform r k) w = run sv (k (fst (sv w r))) (snd (sv w r))"

lemma run_await [act_simps]:
  "run sv (await m f) w =
     (case run sv m w of (Returned x, w') \<Rightarrow> run sv (f x) w' | (Threw e, w') \<Rightarrow> (Threw e, w')
      | (Exhausted, w') \<Rightarrow> (Exhausted, w'))"
  by (induction m arbitrary: w) simp_all

lemma run_try_catch [act_simps]:
  "run sv (try_catch m h) w =
     (case run sv m w of (Returned x, w') \<Rightarrow> (Returned x, w') | (Threw e, w') \<Rightarrow> run sv (h e) w'
      | (Exhausted, w') \<Rightarrow> (Exhausted, w'))"
  by (induction m arbitrary: w) simp_all

lemma run_try_finally [act_simps]:
  "run sv (try_finally m f) w =
     (case run sv m w of (Exhausted, w') \<Rightarrow> (Exhausted, w')
      | (o1, w') \<Rightarrow> (case run sv f w' of (Returned u, w'') \<Rightarrow> (o1, w'')
                   | (Threw e, w'') \<Rightarrow> (Threw e, w'') | (Exhausted, w'') \<Rightarrow> (Exhausted, w'')))"
  by (induction m arbitrary: w) (simp_all add: run_await split: prod.split outcome.split)

text \<open>The requests a run makes, each with its response.\<close>

primrec transcript :: "'w service \<Rightarrow> 'a act \<Rightarrow> 'w \<Rightarrow> (req \<times> resp) list" where
  "transcript sv (Return x) w = []"
| "transcript sv (Throw e) w = []"
| "transcript sv Diverge w = []"
| "transcript sv (Perform r k) w = (r, fst (sv w r)) # transcript sv (k (fst (sv w r))) (snd (sv w r))"

lemma transcript_await [act_simps]:
  "transcript sv (await m f) w = transcript sv m w @
     (case run sv m w of (Returned x, w') \<Rightarrow> transcript sv (f x) w' | _ \<Rightarrow> [])"
  by (induction m arbitrary: w) simp_all

lemma transcript_try_catch [act_simps]:
  "transcript sv (try_catch m h) w = transcript sv m w @
     (case run sv m w of (Threw e, w') \<Rightarrow> transcript sv (h e) w' | _ \<Rightarrow> [])"
  by (induction m arbitrary: w) simp_all

lemma transcript_lift_sum [simp]: "transcript sv (lift_sum m) w = []"
  by (cases m) simp_all

section \<open>What holds of every request, result and exception\<close>

primrec safe :: "(req \<Rightarrow> bool) \<Rightarrow> ('a \<Rightarrow> bool) \<Rightarrow> (jserr \<Rightarrow> bool) \<Rightarrow> 'a act \<Rightarrow> bool" where
  "safe P Q E (Return x) = Q x"
| "safe P Q E (Throw e) = E e"
| "safe P Q E Diverge = True"
| "safe P Q E (Perform r k) = (P r \<and> (\<forall>x. safe P Q E (k x)))"

abbreviation requests :: "(req \<Rightarrow> bool) \<Rightarrow> 'a act \<Rightarrow> bool" where
  "requests P m \<equiv> safe P (\<lambda>_. True) (\<lambda>_. True) m"

lemma safe_mono:
  assumes "safe P Q E m" and "\<And>r. P r \<Longrightarrow> P' r" and "\<And>x. Q x \<Longrightarrow> Q' x" and "\<And>e. E e \<Longrightarrow> E' e"
  shows "safe P' Q' E' m"
  using assms by (induction m) auto

lemma safe_await [safe_intros]:
  assumes "safe P R E m" and "\<And>x. R x \<Longrightarrow> safe P Q E (f x)"
  shows "safe P Q E (await m f)"
  using assms by (induction m) auto

lemma safe_try_catch:
  assumes "safe P Q F m" and "\<And>e. F e \<Longrightarrow> safe P Q E (h e)"
  shows "safe P Q E (try_catch m h)"
  using assms by (induction m) auto

lemma safe_try_finally:
  assumes "safe P Q E m" and "safe P (\<lambda>_. True) E f"
  shows "safe P Q E (try_finally m f)"
  using assms by (induction m) (auto intro: safe_await)

lemma requests_await [safe_intros]:
  assumes "requests P m" and "\<And>x. requests P (f x)"
  shows "requests P (await m f)"
  using assms by (auto intro: safe_await)

lemma requests_try_catch [safe_intros]:
  assumes "requests P m" and "\<And>e. requests P (h e)"
  shows "requests P (try_catch m h)"
  using assms by (auto intro: safe_try_catch)

lemma requests_try_finally [safe_intros]:
  assumes "requests P m" and "requests P f"
  shows "requests P (try_finally m f)"
  using assms by (auto intro: safe_try_finally)

lemma requests_lift_sum [safe_intros]: "requests P (lift_sum m)"
  by (cases m) simp_all

lemma safe_request_simps [simp]:
  "requests P (redis_get k) = P (RedisGet k)"
  "requests P (redis_set k v m) = P (RedisSet k v m)"
  "requests P (redis_del k) = P (RedisDel k)"
  "requests P (redis_exists k) = P (RedisExists k)"
  "requests P (http q) = P (Http q)"
  "requests P date_now = P DateNow"
  "requests P (sleep ms) = P (Sleep ms)"
  "requests P (random_bytes n) = P (RandomBytes n)"
  "requests P (random_int i) = P (RandomInt i)"
  "requests P (spawn t) = P (Spawn t)"
  "requests P now_seconds = P DateNow"
  by (auto simp: request_defs now_seconds_def split: resp.split)

lemma safe_any [simp]: "safe (\<lambda>_. True) (\<lambda>_. True) (\<lambda>_. True) m"
  by (induction m) simp_all

text \<open>A tree that cannot throw: every exception is caught.\<close>

abbreviation no_throw :: "'a act \<Rightarrow> bool" where
  "no_throw m \<equiv> safe (\<lambda>_. True) (\<lambda>_. True) (\<lambda>_. False) m"

lemma run_safe:
  assumes "safe P Q E m"
  shows "case fst (run sv m w) of Returned x \<Rightarrow> Q x | Threw e \<Rightarrow> E e | Exhausted \<Rightarrow> True"
  using assms by (induction m arbitrary: w) auto

lemma transcript_safe: "safe P Q E m \<Longrightarrow> (r, x) \<in> set (transcript sv m w) \<Longrightarrow> P r"
  by (induction m arbitrary: w) auto

text \<open>
  Every world a run passes through is reached by requests that satisfy \<open>P\<close>: an invariant of the world
  that those requests keep holds at the end.
\<close>

lemma run_invariant:
  assumes "safe P Q E m" and "I w" and "\<And>w r. I w \<Longrightarrow> P r \<Longrightarrow> I (snd (sv w r))"
  shows "I (snd (run sv m w))"
  using assms(1,2) by (induction m arbitrary: w) (auto intro: assms(3))

section \<open>Trees without a cut-off loop\<close>

primrec converges :: "'a act \<Rightarrow> bool" where
  "converges (Return x) = True"
| "converges (Throw e) = True"
| "converges Diverge = False"
| "converges (Perform r k) = (\<forall>x. converges (k x))"

lemma converges_await [intro]:
  "converges m \<Longrightarrow> (\<And>x. converges (f x)) \<Longrightarrow> converges (await m f)"
  by (induction m) auto

lemma converges_try_catch [intro]:
  "converges m \<Longrightarrow> (\<And>e. converges (h e)) \<Longrightarrow> converges (try_catch m h)"
  by (induction m) auto

lemma converges_lift_sum [simp]: "converges (lift_sum m)"
  by (cases m) simp_all

lemma converges_request [simp]:
  "converges (redis_get k)" "converges (redis_set k v m)" "converges (redis_del k)"
  "converges (redis_exists k)" "converges (http q)" "converges date_now" "converges (sleep ms)"
  "converges (random_bytes n)" "converges (random_int i)" "converges (spawn t)" "converges now_seconds"
  by (auto simp: request_defs now_seconds_def split: resp.split)

lemma run_converges: "converges m \<Longrightarrow> fst (run sv m w) \<noteq> Exhausted"
  by (induction m arbitrary: w) auto

end
