(* ===== verification/Signature.thy ===== *)
theory Signature
  imports Sha1 Effects
begin

text \<open>
  \<open>utils/signature.ts\<close> and the two signature functions of \<open>utils/crypto.ts\<close>: the SHA-1 digest, in
  hexadecimal, of the sorted and concatenated parts.  The encrypted text comes from the XML parser
  and may be any value; \<open>sort\<close> and \<open>join\<close> read it through \<open>String\<close>.
\<close>

definition validateSignature :: "jsstr \<Rightarrow> jsstr \<Rightarrow> jsstr \<Rightarrow> jsstr \<Rightarrow> bool" where
  "validateSignature tok signature timestamp nonce =
     (let arr = sort [tok, timestamp, nonce]; hash = sha1_hex (join [] arr) in hash = signature)"

definition generateSignature :: "jsstr \<Rightarrow> jsstr \<Rightarrow> jsstr \<Rightarrow> jsstr" where
  "generateSignature tok timestamp nonce =
     (let arr = sort [tok, timestamp, nonce] in sha1_hex (join [] arr))"

definition generateMsgSignature :: "jsstr \<Rightarrow> jsstr \<Rightarrow> jsstr \<Rightarrow> jsval \<Rightarrow> jsstr" where
  "generateMsgSignature tok timestamp nonce encrypted =
     (let arr = sort [tok, timestamp, nonce, to_str encrypted]; str = join [] arr in sha1_hex str)"

definition validateMsgSignature :: "jsstr \<Rightarrow> jsstr \<Rightarrow> jsstr \<Rightarrow> jsval \<Rightarrow> jsstr \<Rightarrow> bool" where
  "validateMsgSignature tok timestamp nonce encrypted msgSignature =
     (let calculatedSignature = generateMsgSignature tok timestamp nonce encrypted
      in calculatedSignature = msgSignature)"

lemma validateSignature_generate: "validateSignature tok s ts n \<longleftrightarrow> s = generateSignature tok ts n"
  by (auto simp: validateSignature_def generateSignature_def Let_def)

lemma validateMsgSignature_generate:
  "validateMsgSignature tok ts n e s \<longleftrightarrow> s = generateMsgSignature tok ts n e"
  by (auto simp: validateMsgSignature_def Let_def)

lemma validateSignature_length: "validateSignature tok s ts n \<Longrightarrow> length s = 40"
  by (auto simp: validateSignature_def Let_def length_sha1_hex)

text \<open>
  The digest does not say which part is which: exchanging the parts, or moving the boundary between
  two neighbours of the sorted list, keeps it.
\<close>

lemma generateSignature_swap: "generateSignature tok ts n = generateSignature tok n ts"
  by (auto simp: generateSignature_def Let_def)

lemma sort_set_unique: "set xs = set ys \<Longrightarrow> distinct xs \<Longrightarrow> distinct ys \<Longrightarrow> sort xs = sort ys"
  by (rule sorted_distinct_set_unique) (simp_all only: sorted_sort distinct_sort set_sort)

lemma generateSignature_set:
  assumes "set [tok, ts, n] = set [tok', ts', n']" "distinct [tok, ts, n]" "distinct [tok', ts', n']"
  shows "generateSignature tok ts n = generateSignature tok' ts' n'"
  unfolding generateSignature_def Let_def by (simp only: sort_set_unique [OF assms])

end
