(* ===== verification/Crypto.thy ===== *)
theory Crypto
  imports Aes Signature
begin

text \<open>
  \<open>utils/crypto.ts\<close>: the encrypted mode of the WeChat message interface.  A message travels as
  \<open>random(16) + length(4) + message + appId\<close>, padded to a multiple of 32 bytes, encrypted with
  AES-256-CBC under the decoded \<open>EncodingAESKey\<close> (its first 16 bytes are the IV) and written in base64.
  \<open>XMLParser.parse\<close> of the package \<open>fast-xml-parser\<close> is the parameter \<open>parse\<close>.
\<close>

section \<open>Keys and padding\<close>

definition decodeAESKey :: "jsstr \<Rightarrow> bytes" where
  "decodeAESKey encodingAESKey = from_base64 (encodingAESKey @ js ''='')"

text \<open>
  The last byte of an empty buffer is \<open>undefined\<close>: both comparisons are false and the slice ends at
  \<open>NaN\<close>, that is 0, so the result is empty again.
\<close>

definition pkcs7Unpad :: "bytes \<Rightarrow> bytes" where
  "pkcs7Unpad buf =
     (if buf = [] then []
      else (let padLen = unat (last buf)
            in if padLen < 1 \<or> 32 < padLen then buf
               else subarray buf 0 (int (length buf) - int padLen)))"

definition pkcs7Pad :: "bytes \<Rightarrow> nat \<Rightarrow> bytes" where
  "pkcs7Pad buf blockSize =
     (let padLen = blockSize - length buf mod blockSize; padding = replicate padLen (of_nat padLen)
      in buf @ padding)"

section \<open>Decryption\<close>

text \<open>
  \<open>Buffer.from(v, 'base64')\<close>: a string is decoded, the elements of an array become bytes, other
  values are refused.
\<close>

definition to_byte :: "jsval \<Rightarrow> byte" where
  "to_byte v = (case to_num v of Dec m k \<Rightarrow> word_of_int (sgn m * (\<bar>m\<bar> div 10 ^ k)) | NaN \<Rightarrow> 0)"

fun buffer_from_base64 :: "jsval \<Rightarrow> jserr + bytes" where
  "buffer_from_base64 (StrV s) = Inr (from_base64 s)"
| "buffer_from_base64 (ArrV xs) = Inr (map to_byte xs)"
| "buffer_from_base64 _ = Inl (ErrorObj TypeError (js ''The first argument must be of type string'') None)"

definition appid_mismatch :: "jsstr \<Rightarrow> jsstr \<Rightarrow> jserr" where
  "appid_mismatch appId extracted =
     ErrorObj GenericError (js ''AppID mismatch: expected '' @ appId @ js '', got '' @ extracted) None"

definition decryptMessage :: "jsval \<Rightarrow> jsstr \<Rightarrow> jsstr \<Rightarrow> jserr + jsstr" where
  "decryptMessage encrypted encodingAESKey appId =
     (let aesKey = decodeAESKey encodingAESKey; iv = subarray aesKey 0 16
      in sum_bind (buffer_from_base64 encrypted) (\<lambda>encryptedBuffer.
         sum_bind (aes_256_cbc_decrypt aesKey iv encryptedBuffer) (\<lambda>decryptedRaw.
           let decrypted = pkcs7Unpad decryptedRaw
           in sum_bind (readUInt32BE decrypted 16) (\<lambda>msgLen.
                let msgStart = 20; msgEnd = msgStart + msgLen;
                    message = utf8_decode (subarray decrypted (int msgStart) (int msgEnd));
                    extractedAppId = utf8_decode (subarray_from decrypted (int msgEnd))
                in if extractedAppId \<noteq> appId then Inl (appid_mismatch appId extractedAppId)
                   else Inr message))))"

section \<open>Encryption\<close>

text \<open>\<open>encryptMessage\<close> after \<open>crypto.randomBytes(16)\<close> has returned.\<close>

definition encrypt_with :: "bytes \<Rightarrow> jsstr \<Rightarrow> jsstr \<Rightarrow> jsstr \<Rightarrow> jserr + jsstr" where
  "encrypt_with random message encodingAESKey appId =
     (let aesKey = decodeAESKey encodingAESKey; iv = subarray aesKey 0 16;
          msgBuffer = utf8_encode message
      in sum_bind (writeUInt32BE (length msgBuffer)) (\<lambda>msgLen.
           let appIdBuffer = utf8_encode appId;
               plaintext = random @ msgLen @ msgBuffer @ appIdBuffer;
               padded = pkcs7Pad plaintext 32
           in sum_bind (aes_256_cbc_encrypt aesKey iv padded) (\<lambda>encrypted. Inr (to_base64 encrypted))))"

definition encryptMessage :: "jsstr \<Rightarrow> jsstr \<Rightarrow> jsstr \<Rightarrow> jsstr act" where
  "encryptMessage message encodingAESKey appId =
     await (random_bytes 16) (\<lambda>random. lift_sum (encrypt_with random message encodingAESKey appId))"

section \<open>The XML envelope\<close>

definition extractEncryptedContent :: "(jsval \<Rightarrow> jserr + jsval) \<Rightarrow> jsval \<Rightarrow> jserr + jsval" where
  "extractEncryptedContent parse xml =
     sum_bind (parse xml) (\<lambda>parsed.
     sum_bind (get_prop parsed ''xml'') (\<lambda>x.
     Inr (js_or (opt_prop x ''Encrypt'') (StrV []))))"

definition buildEncryptedReply :: "jsstr \<Rightarrow> jsstr \<Rightarrow> jsstr \<Rightarrow> jsstr \<Rightarrow> jsstr" where
  "buildEncryptedReply encrypted signature timestamp nonce =
     js ''<xml>'' @ units [10] @
     js ''<Encrypt><![CDATA['' @ encrypted @ js '']]></Encrypt>'' @ units [10] @
     js ''<MsgSignature><![CDATA['' @ signature @ js '']]></MsgSignature>'' @ units [10] @
     js ''<TimeStamp>'' @ timestamp @ js ''</TimeStamp>'' @ units [10] @
     js ''<Nonce><![CDATA['' @ nonce @ js '']]></Nonce>'' @ units [10] @
     js ''</xml>''"

section \<open>Padding\<close>

lemma pkcs7Pad_replicate:
  obtains n where "0 < n" "n \<le> 32" "pkcs7Pad buf 32 = buf @ replicate n (of_nat n)" "(length buf + n) mod 32 = 0"
proof -
  have lt: "length buf mod 32 < 32" by simp
  have "length buf + (32 - length buf mod 32) = 32 * (length buf div 32 + 1)"
  proof -
    have "l + (32 - r) = 32 * (q + 1)" if "32 * q + r = l" "r < 32" for l q r :: nat
      using that by simp
    from this [OF mult_div_mod_eq lt] show ?thesis .
  qed
  then have "(length buf + (32 - length buf mod 32)) mod 32 = 0" by (metis mod_mult_self1_is_0)
  moreover have "0 < 32 - length buf mod 32" "32 - length buf mod 32 \<le> 32" using lt by simp_all
  ultimately show thesis
    using that [of "32 - length buf mod 32"] by (simp add: pkcs7Pad_def Let_def del: diff_is_0_eq of_nat_diff)
qed

lemma pad_amount: "length (pkcs7Pad buf 32) mod 32 = 0"
  by (rule pkcs7Pad_replicate [of buf]) simp

lemma pad_bounds: "length buf < length (pkcs7Pad buf 32) \<and> length (pkcs7Pad buf 32) \<le> length buf + 32"
  by (rule pkcs7Pad_replicate [of buf]) simp

lemma unpad_replicate:
  assumes "0 < n" "n \<le> 32"
  shows "pkcs7Unpad (buf @ replicate n (of_nat n)) = buf"
proof -
  have "unat (of_nat n :: byte) = n" using assms by (intro unat_of_nat_byte) simp
  moreover have "last (buf @ replicate n (of_nat n :: byte)) = of_nat n" using assms by (simp add: last_append)
  moreover have "subarray (buf @ replicate n (of_nat n)) 0 (int (length buf)) = buf"
    using subarray_nat [of "buf @ replicate n (of_nat n)" 0 "length buf"] by simp
  ultimately show ?thesis using assms by (simp add: pkcs7Unpad_def Let_def)
qed

lemma unpad_pad: "pkcs7Unpad (pkcs7Pad buf 32) = buf"
  by (rule pkcs7Pad_replicate [of buf]) (simp add: unpad_replicate)

section \<open>Decryption inverts encryption\<close>

lemma iv_length: "length key = 32 \<Longrightarrow> length (subarray key 0 16) = 16"
  using subarray_nat [of key 0 16] by simp

lemma frame_parts:
  fixes rnd m a :: bytes
  assumes "length rnd = 16" "length m < 2 ^ 32"
  defines "d \<equiv> rnd @ be32 (length m) @ m @ a"
  shows "readUInt32BE d 16 = Inr (length m)"
    and "subarray d 20 (int (20 + length m)) = m"
    and "subarray_from d (int (20 + length m)) = a"
proof -
  show "readUInt32BE d 16 = Inr (length m)"
    using readUInt32BE_be32 [OF assms(2), of rnd "m @ a"] assms(1) by (simp add: d_def)
  show "subarray d 20 (int (20 + length m)) = m"
    using subarray_nat [of d 20 "20 + length m"] assms(1) by (simp add: d_def)
  show "subarray_from d (int (20 + length m)) = a"
    unfolding subarray_from_nat using assms(1) by (simp add: d_def)
qed

lemma mod_32_16: "(n::nat) mod 32 = 0 \<Longrightarrow> n mod 16 = 0"
  by presburger

lemma decrypt_encrypt_with:
  assumes key: "length (decodeAESKey key) = 32" and rnd: "length rnd = 16"
    and m: "well_formed m" "length (utf8_encode m) < 2 ^ 32" and a: "well_formed a"
  obtains c where "encrypt_with rnd m key a = Inr c"
    "\<And>b. decryptMessage (StrV c) key b = (if b = a then Inr m else Inl (appid_mismatch b a))"
proof -
  let ?k = "decodeAESKey key" and ?iv = "subarray (decodeAESKey key) 0 16"
  let ?p = "rnd @ be32 (length (utf8_encode m)) @ utf8_encode m @ utf8_encode a"
  have "length (pkcs7Pad ?p 32) mod 16 = 0"
    using pad_amount [of ?p] by (rule mod_32_16)
  then obtain e where e: "aes_256_cbc_encrypt ?k ?iv (pkcs7Pad ?p 32) = Inr e"
      "aes_256_cbc_decrypt ?k ?iv e = Inr (pkcs7Pad ?p 32)"
    using aes_256_cbc_round_trip [OF key iv_length [OF key]] by metis
  have enc: "encrypt_with rnd m key a = Inr (to_base64 e)"
    using e(1) m(2) by (simp add: encrypt_with_def Let_def writeUInt32BE_def)
  have dec: "decryptMessage (StrV (to_base64 e)) key b = (if b = a then Inr m else Inl (appid_mismatch b a))" for b
    using e(2) frame_parts [OF rnd m(2), of "utf8_encode a"] utf8_roundtrip [OF m(1)] utf8_roundtrip [OF a]
    by (auto simp: decryptMessage_def Let_def unpad_pad)
  show thesis using that [OF enc dec] .
qed

text \<open>There is no message without a ciphertext.\<close>

lemma decryptMessage_empty: "decryptMessage (StrV []) key a \<noteq> Inr m"
  by (auto simp: decryptMessage_def Let_def from_base64_def List.map_filter_def aes_256_cbc_decrypt_def cbc_stream_def
      pkcs7Unpad_def readUInt32BE_def sum_bind_def split: if_splits)

lemma encrypt_with_ne:
  assumes "length (decodeAESKey key) = 32" "length rnd = 16" "well_formed m" "length (utf8_encode m) < 2 ^ 32"
    "well_formed a" "encrypt_with rnd m key a = Inr c"
  shows "c \<noteq> []"
  using decrypt_encrypt_with [OF assms(1-5)] assms(6) decryptMessage_empty by (metis sum.inject(2))

lemma cbc_key_length:
  assumes "length key \<noteq> 32"
  shows "\<exists>e. aes_256_cbc_decrypt key iv d = Inl e" and "\<exists>e. aes_256_cbc_encrypt key iv d = Inl e"
  using assms by (auto simp: aes_256_cbc_decrypt_def aes_256_cbc_encrypt_def cbc_stream_def)

lemma decryptMessage_key_length:
  assumes "length (decodeAESKey key) \<noteq> 32"
  shows "\<exists>e. decryptMessage c key a = Inl e"
proof (cases "buffer_from_base64 c")
  case (Inr d)
  then show ?thesis
    using cbc_key_length(1) [OF assms, of "subarray (decodeAESKey key) 0 16" d]
    by (auto simp: decryptMessage_def Let_def)
qed (simp add: decryptMessage_def)

lemma encrypt_with_key_length:
  assumes "length (decodeAESKey key) \<noteq> 32"
  shows "\<exists>e. encrypt_with rnd m key a = Inl e"
proof (cases "writeUInt32BE (length (utf8_encode m))")
  case (Inr l)
  then show ?thesis
    using cbc_key_length(2) [OF assms, of "subarray (decodeAESKey key) 0 16"
        "pkcs7Pad (rnd @ l @ utf8_encode m @ utf8_encode a) 32"]
    by (auto simp: encrypt_with_def Let_def)
qed (simp add: encrypt_with_def)

text \<open>A 43-character key of base64 characters decodes to the 32 bytes AES-256 needs.\<close>

lemma decodeAESKey_length:
  assumes "length key = 43" "list_all (\<lambda>c. b64_val c \<noteq> None) key"
  shows "length (decodeAESKey key) = 32"
proof -
  have "length (List.map_filter b64_val key) = length key"
    using assms(2) by (induction key) (auto simp: List.map_filter_simps)
  moreover have "List.map_filter b64_val (key @ js ''='') = List.map_filter b64_val key"
    by (simp add: List.map_filter_def js_def b64_val_def)
  ultimately show ?thesis
    using assms(1) by (simp add: decodeAESKey_def from_base64_def length_b64_bytes)
qed

end
