(* ===== verification/XmlParser.thy ===== *)
theory XmlParser
  imports Effects
begin

text \<open>
  \<open>utils/xml-parser.ts\<close>.  The XML parser and builder belong to the package \<open>fast-xml-parser\<close>, which is
  not part of the sources, and the locale-dependent \<open>toLocaleString\<close> belongs to the ICU data of the
  run time: they are the fields of a parameter record.  The parser is given whatever Fastify puts in
  \<open>request.body\<close> and returns or throws; \<open>WeChatMessage\<close> and \<open>WeChatReply\<close> are casts of its result.
\<close>

record library =
  lib_parse :: "jsval \<Rightarrow> jserr + jsval"
  lib_build :: "jsval \<Rightarrow> jsstr"
  lib_date :: "jsval \<Rightarrow> jsstr"

definition parseWeChatXml :: "library \<Rightarrow> jsval \<Rightarrow> jserr + jsval" where
  "parseWeChatXml lib xml = sum_bind (lib_parse lib xml) (\<lambda>parsed. get_prop parsed ''xml'')"

definition buildWeChatReply :: "library \<Rightarrow> jsval \<Rightarrow> jsstr" where
  "buildWeChatReply lib reply = lib_build lib (obj [(''xml'', reply)])"

definition text_reply :: "jsval \<Rightarrow> jsval \<Rightarrow> int \<Rightarrow> jsstr \<Rightarrow> jsval" where
  "text_reply toUser fromUser t content =
     obj [(''ToUserName'', toUser), (''FromUserName'', fromUser), (''CreateTime'', int_val t),
          (''MsgType'', str_val ''text''), (''Content'', StrV content)]"

definition buildTextReply :: "library \<Rightarrow> jsval \<Rightarrow> jsval \<Rightarrow> jsstr \<Rightarrow> jsstr act" where
  "buildTextReply lib toUser fromUser content =
     await now_seconds (\<lambda>t. Return (buildWeChatReply lib (text_reply toUser fromUser t content)))"

lemma requests_buildTextReply [safe_intros]: "P DateNow \<Longrightarrow> requests P (buildTextReply lib u v c)"
  unfolding buildTextReply_def by (intro safe_intros) simp_all

lemma converges_buildTextReply [simp]: "converges (buildTextReply lib u v c)"
  unfolding buildTextReply_def by (intro converges_await) simp_all

end
