(* ===== verification/Config.thy ===== *)
theory Config
  imports JsString
begin

text \<open>
  \<open>config.ts\<close>: the configuration record and how it is read from the environment, and the module-level
  singletons of \<open>config.ts\<close>, \<open>services/redis.ts\<close> and \<open>services/orchestrator-client.ts\<close>.  The
  environment \<open>process.env\<close> is a map from variable names to strings.
\<close>

section \<open>The configuration\<close>

record wechat_config =
  wc_appId :: jsstr
  wc_appSecret :: jsstr
  wc_token :: jsstr
  wc_encodingAESKey :: "jsstr option"

record bridge_config =
  br_baseUrl :: jsstr
  br_sshHost :: jsstr
  br_sshPort :: "int option"

record orchestrator_config =
  oc_url :: jsstr
  oc_vmReadyTimeoutMs :: "int option"

text \<open>\<open>None\<close> in a numeric field is \<open>NaN\<close>, which \<open>parseInt\<close> returns for text without leading digits.\<close>

record config =
  cf_port :: "int option"
  cf_host :: jsstr
  cf_wechat :: wechat_config
  cf_redisUrl :: jsstr
  cf_bridge :: bridge_config
  cf_orchestrator :: orchestrator_config

section \<open>Reading it\<close>

type_synonym environment = "string \<Rightarrow> jsstr option"

text \<open>\<open>parseInt(s, 10)\<close>\<close>

definition parseInt10 :: "jsstr \<Rightarrow> int option" where
  "parseInt10 s =
     (let s1 = trim_start s;
          neg = (s1 \<noteq> [] \<and> hd s1 = 45);
          s2 = (if s1 \<noteq> [] \<and> (hd s1 = 45 \<or> hd s1 = 43) then tl s1 else s1);
          ds = takeWhile is_digit s2
      in if ds = [] then None else Some ((if neg then -1 else 1) * int (digits_val ds)))"

text \<open>\<open>process.env.X || dflt\<close>: an unset and an empty variable both take the default.\<close>

definition env_or :: "environment \<Rightarrow> string \<Rightarrow> jsstr \<Rightarrow> jsstr" where
  "env_or env x dflt = (case env x of None \<Rightarrow> dflt | Some v \<Rightarrow> if v = [] then dflt else v)"

definition requireEnv :: "environment \<Rightarrow> string \<Rightarrow> jserr + jsstr" where
  "requireEnv env x =
     (case env x of
        Some v \<Rightarrow> if v = [] then throw_error (''Missing required environment variable: '' @ x) else Inr v
      | None \<Rightarrow> throw_error (''Missing required environment variable: '' @ x))"

definition loadConfig :: "environment \<Rightarrow> jserr + config" where
  "loadConfig env =
     sum_bind (requireEnv env ''WECHAT_APPID'') (\<lambda>appid.
     sum_bind (requireEnv env ''WECHAT_APPSECRET'') (\<lambda>secret.
     sum_bind (requireEnv env ''WECHAT_TOKEN'') (\<lambda>tok.
     sum_bind (requireEnv env ''BRIDGE_BASE_URL'') (\<lambda>base.
     Inr \<lparr>cf_port = parseInt10 (env_or env ''PORT'' (js ''3000'')),
          cf_host = env_or env ''HOST'' (js ''0.0.0.0''),
          cf_wechat = \<lparr>wc_appId = appid, wc_appSecret = secret, wc_token = tok,
                    wc_encodingAESKey = env ''WECHAT_ENCODING_AES_KEY''\<rparr>,
          cf_redisUrl = env_or env ''REDIS_URL'' (js ''redis://localhost:6379''),
          cf_bridge = \<lparr>br_baseUrl = base,
                    br_sshHost = env_or env ''SSH_HOST'' (js ''your-server.example.com''),
                    br_sshPort = parseInt10 (env_or env ''SSH_PORT'' (js ''2222''))\<rparr>,
          cf_orchestrator = \<lparr>oc_url = env_or env ''ORCHESTRATOR_URL'' (js ''http://orchestrator:8080''),
                          oc_vmReadyTimeoutMs = parseInt10 (env_or env ''VM_READY_TIMEOUT_MS'' (js ''30000''))\<rparr>\<rparr>))))"

section \<open>Singletons\<close>

text \<open>
  The module variables \<open>configInstance\<close>, \<open>redisClient\<close> and \<open>orchestratorClient\<close>.  A Redis client is
  known by the URL it was created for and a serial number, the orchestrator client by its base URL and
  timeout.
\<close>

record redis_client =
  client_url :: jsstr
  client_serial :: nat

record orchestrator_client =
  client_baseURL :: jsstr
  client_timeout :: "int option"

record module_state =
  configInstance :: "config option"
  redisClient :: "redis_client option"
  orchestratorClient :: "orchestrator_client option"
  clients_made :: nat

definition getConfig :: "environment \<Rightarrow> module_state \<Rightarrow> (jserr + config) \<times> module_state" where
  "getConfig env m =
     (case configInstance m of
        Some c \<Rightarrow> (Inr c, m)
      | None \<Rightarrow> (case loadConfig env of
                   Inl e \<Rightarrow> (Inl e, m)
                 | Inr c \<Rightarrow> (Inr c, m\<lparr>configInstance := Some c\<rparr>)))"

definition getRedis :: "environment \<Rightarrow> module_state \<Rightarrow> (jserr + redis_client) \<times> module_state" where
  "getRedis env m =
     (case redisClient m of
        Some r \<Rightarrow> (Inr r, m)
      | None \<Rightarrow> (case getConfig env m of
                   (Inl e, m1) \<Rightarrow> (Inl e, m1)
                 | (Inr c, m1) \<Rightarrow>
                     (let r = \<lparr>client_url = cf_redisUrl c, client_serial = clients_made m1\<rparr>
                      in (Inr r, m1\<lparr>redisClient := Some r, clients_made := Suc (clients_made m1)\<rparr>))))"

text \<open>\<open>closeRedis\<close>: the client that \<open>quit\<close> is called on, if there is one, and the next state.\<close>

definition closeRedis :: "module_state \<Rightarrow> redis_client option \<times> module_state" where
  "closeRedis m = (case redisClient m of None \<Rightarrow> (None, m) | Some r \<Rightarrow> (Some r, m\<lparr>redisClient := None\<rparr>))"

definition getOrchestratorClient :: "environment \<Rightarrow> module_state \<Rightarrow> (jserr + orchestrator_client) \<times> module_state" where
  "getOrchestratorClient env m =
     (case orchestratorClient m of
        Some c \<Rightarrow> (Inr c, m)
      | None \<Rightarrow> (case getConfig env m of
                   (Inl e, m1) \<Rightarrow> (Inl e, m1)
                 | (Inr cfg, m1) \<Rightarrow>
                     (let c = \<lparr>client_baseURL = oc_url (cf_orchestrator cfg),
                               client_timeout = oc_vmReadyTimeoutMs (cf_orchestrator cfg)\<rparr>
                      in (Inr c, m1\<lparr>orchestratorClient := Some c\<rparr>))))"

section \<open>Lemmas\<close>

definition required_vars :: "string list" where
  "required_vars = [''WECHAT_APPID'', ''WECHAT_APPSECRET'', ''WECHAT_TOKEN'', ''BRIDGE_BASE_URL'']"

definition env_missing :: "environment \<Rightarrow> string \<Rightarrow> bool" where
  "env_missing env x \<longleftrightarrow> env x = None \<or> env x = Some []"

lemma requireEnv_missing:
  "requireEnv env x = (if env_missing env x
     then throw_error (''Missing required environment variable: '' @ x) else Inr (the (env x)))"
  by (auto simp: requireEnv_def env_missing_def split: option.splits)

lemma loadConfig_error:
  "loadConfig env = Inl e \<longleftrightarrow>
     (\<exists>x. find (env_missing env) required_vars = Some x \<and>
        e = ErrorObj GenericError (js (''Missing required environment variable: '' @ x)) None)"
  by (auto simp: loadConfig_def requireEnv_missing required_vars_def)

lemma parseInt10_nat_digits:
  assumes "rest = [] \<or> \<not> is_digit (hd rest)"
  shows "parseInt10 (nat_digits n @ rest) = Some (int n)"
proof -
  obtain c cs where c: "nat_digits n = c # cs" by (cases "nat_digits n") auto
  have "is_digit c" using nat_digits_all [of n] c by simp
  then have "\<not> is_ws c" "c \<noteq> 45" "c \<noteq> 43" by (auto simp: digit_not_ws is_digit_def)
  moreover have "takeWhile is_digit (nat_digits n @ rest) = nat_digits n"
    using takeWhile_append_stop [OF nat_digits_all assms] .
  ultimately show ?thesis
    using c by (simp add: parseInt10_def Let_def trim_start_def del: takeWhile.simps)
       (metis digits_val_nat_digits takeWhile.simps(2))
qed

text \<open>
  What an optional variable means: a text with a default, and a number, which is the one its value starts
  with, the default when it is unset or empty, and no number when its value starts with something else.
\<close>

definition reads_text :: "environment \<Rightarrow> string \<Rightarrow> string \<Rightarrow> jsstr \<Rightarrow> bool" where
  "reads_text env x dflt v \<longleftrightarrow> (if env_missing env x then v = js dflt else env x = Some v)"

definition reads_number :: "environment \<Rightarrow> string \<Rightarrow> nat \<Rightarrow> int option \<Rightarrow> bool" where
  "reads_number env x dflt v \<longleftrightarrow>
     (env_missing env x \<longrightarrow> v = Some (int dflt))
     \<and> (\<forall>n rest. env x = Some (nat_digits n @ rest) \<and> (rest = [] \<or> \<not> is_digit (hd rest)) \<longrightarrow> v = Some (int n))
     \<and> (\<forall>c rest. env x = Some (c # rest) \<and> \<not> is_digit c \<and> \<not> is_ws c \<and> c \<notin> set (js ''+-'') \<longrightarrow> v = None)"

lemma reads_text_env_or: "reads_text env x dflt (env_or env x (js dflt))"
  by (auto simp: reads_text_def env_or_def env_missing_def split: option.split)

lemma reads_number_parse:
  assumes "js dflt = nat_digits n"
  shows "reads_number env x n (parseInt10 (env_or env x (js dflt)))"
proof -
  have d: "parseInt10 (nat_digits n) = Some (int n)" for n using parseInt10_nat_digits [of "[]" n] by simp
  have "parseInt10 (c # rest) = None" if "\<not> is_digit c" "\<not> is_ws c" "c \<notin> set (js ''+-'')" for c rest
    using that by (simp add: parseInt10_def trim_start_def js_Cons)
  with assms d show ?thesis
    by (auto simp: reads_number_def env_or_def env_missing_def parseInt10_nat_digits split: option.split)
qed

text \<open>The getters are idempotent: the second call returns the same object and changes nothing.\<close>

lemma getConfig_again:
  "getConfig env m = (Inr c, m') \<Longrightarrow> getConfig env' m' = (Inr c, m')"
  by (auto simp: getConfig_def split: option.splits sum.splits)

lemma getRedis_again:
  "getRedis env m = (Inr r, m') \<Longrightarrow> getRedis env' m' = (Inr r, m')"
  by (auto simp: getRedis_def Let_def split: option.splits sum.splits prod.splits)

lemma getOrchestratorClient_again:
  "getOrchestratorClient env m = (Inr c, m') \<Longrightarrow> getOrchestratorClient env' m' = (Inr c, m')"
  by (auto simp: getOrchestratorClient_def Let_def split: option.splits sum.splits prod.splits)

end
