(* ===== verification/OrchestratorClient.thy ===== *)
theory OrchestratorClient
  imports Config Effects
begin

text \<open>
  \<open>services/orchestrator-client.ts\<close>: the HTTP client of the VM orchestrator.  A request names the
  address it goes to (base URL of the configuration, then the path; axios drops a doubled slash where the
  two meet), the timeout of the axios
  instance, and the body; a failed exchange, an error status included, is a rejection that carries
  the status of the response when there was one.
\<close>

definition vm_ready_timeout :: "config \<Rightarrow> jsnum" where
  "vm_ready_timeout cfg =
     (case oc_vmReadyTimeoutMs (cf_orchestrator cfg) of None \<Rightarrow> NaN | Some ms \<Rightarrow> num_int ms)"

definition api_request :: "config \<Rightarrow> http_method \<Rightarrow> jsstr \<Rightarrow> jsval option \<Rightarrow> http_req" where
  "api_request cfg meth path body =
     \<lparr>rq_method = meth, rq_url = oc_url (cf_orchestrator cfg) @ path, rq_params = [], rq_body = body,
      rq_timeout = Some (vm_ready_timeout cfg)\<rparr>"

definition vm_path :: "jsval \<Rightarrow> jsstr" where
  "vm_path userId = js ''/api/v1/vms/'' @ to_str userId"

definition createVM :: "config \<Rightarrow> jsval \<Rightarrow> jsval act" where
  "createVM cfg userId =
     await (http (api_request cfg POST (js ''/api/v1/vms'') (Some (obj [(''user_id'', userId)]))))
       (\<lambda>response. Return (rs_data response))"

definition getVMStatus :: "config \<Rightarrow> jsval \<Rightarrow> jsval act" where
  "getVMStatus cfg userId =
     try_catch
       (await (http (api_request cfg GET (vm_path userId) None)) (\<lambda>response. Return (rs_data response)))
       (\<lambda>error. if err_status error = Some 404 then Return Null else Throw error)"

definition stopVM :: "config \<Rightarrow> jsval \<Rightarrow> unit act" where
  "stopVM cfg userId =
     await (http (api_request cfg POST (vm_path userId @ js ''/stop'') None)) (\<lambda>_. Return ())"

definition startVM :: "config \<Rightarrow> jsval \<Rightarrow> jsval act" where
  "startVM cfg userId =
     await (http (api_request cfg POST (vm_path userId @ js ''/start'') None))
       (\<lambda>response. Return (rs_data response))"

definition destroyVM :: "config \<Rightarrow> jsval \<Rightarrow> unit act" where
  "destroyVM cfg userId = await (http (api_request cfg DELETE (vm_path userId) None)) (\<lambda>_. Return ())"

definition changePassword :: "config \<Rightarrow> jsval \<Rightarrow> jsstr \<Rightarrow> unit act" where
  "changePassword cfg userId newPassword =
     await (http (api_request cfg POST (vm_path userId @ js ''/passwd'')
              (Some (obj [(''new_password'', StrV newPassword)]))))
       (\<lambda>_. Return ())"

section \<open>The requests about one user\<close>

text \<open>The only HTTP requests the client makes for a user: creation in his name, or a path below his VM.\<close>

definition vm_request :: "config \<Rightarrow> jsval \<Rightarrow> http_req \<Rightarrow> bool" where
  "vm_request cfg u q \<longleftrightarrow> rq_params q = [] \<and>
     ((rq_method q = POST \<and> rq_url q = oc_url (cf_orchestrator cfg) @ js ''/api/v1/vms''
        \<and> rq_body q = Some (obj [(''user_id'', u)]))
     \<or> (\<exists>suffix \<in> {[], js ''/stop'', js ''/start'', js ''/passwd''}.
          rq_url q = oc_url (cf_orchestrator cfg) @ vm_path u @ suffix))"

fun vm_req :: "config \<Rightarrow> jsval \<Rightarrow> req \<Rightarrow> bool" where
  "vm_req cfg u (Http q) = vm_request cfg u q"
| "vm_req cfg u _ = False"

lemma requests_createVM: "requests (vm_req cfg u) (createVM cfg u)"
  unfolding createVM_def by (intro safe_intros) (simp_all add: vm_request_def api_request_def)

lemma requests_getVMStatus: "requests (vm_req cfg u) (getVMStatus cfg u)"
  unfolding getVMStatus_def by (intro safe_intros) (simp_all add: vm_request_def api_request_def)

lemma requests_stopVM: "requests (vm_req cfg u) (stopVM cfg u)"
  unfolding stopVM_def by (intro safe_intros) (simp_all add: vm_request_def api_request_def)

lemma requests_startVM: "requests (vm_req cfg u) (startVM cfg u)"
  unfolding startVM_def by (intro safe_intros) (simp_all add: vm_request_def api_request_def)

lemma requests_destroyVM: "requests (vm_req cfg u) (destroyVM cfg u)"
  unfolding destroyVM_def by (intro safe_intros) (simp_all add: vm_request_def api_request_def)

lemma requests_changePassword: "requests (vm_req cfg u) (changePassword cfg u p)"
  unfolding changePassword_def by (intro safe_intros) (simp_all add: vm_request_def api_request_def)

lemmas vm_requests = requests_createVM requests_getVMStatus requests_stopVM requests_startVM
  requests_destroyVM requests_changePassword

lemma converges_vm [simp]:
  "converges (createVM cfg u)" "converges (getVMStatus cfg u)" "converges (stopVM cfg u)"
  "converges (startVM cfg u)" "converges (destroyVM cfg u)" "converges (changePassword cfg u p)"
  unfolding createVM_def getVMStatus_def stopVM_def startVM_def destroyVM_def changePassword_def
  by (auto intro!: converges_await converges_try_catch)

text \<open>
  One exchange with the orchestrator: each operation makes exactly one request, a failure of it is
  the rejection of the operation, except that \<open>getVMStatus\<close> turns a 404 into \<open>null\<close>.
\<close>

lemma run_http:
  "run sv (http q) w = (case fst (sv w (Http q)) of GotHttp s \<Rightarrow> Returned s | r \<Rightarrow> Threw (fail_of r), snd (sv w (Http q)))"
  by (simp add: http_def split: resp.split)

lemma run_getVMStatus:
  assumes "sv w (Http (api_request cfg GET (vm_path u) None)) = (r, w')"
  shows "run sv (getVMStatus cfg u) w =
    (case r of GotHttp s \<Rightarrow> Returned (rs_data s)
     | _ \<Rightarrow> if err_status (fail_of r) = Some 404 then Returned Null else Threw (fail_of r), w')"
  using assms by (cases r) (auto simp: getVMStatus_def act_simps run_http)

end
