(* ===== verification/Forwarder.thy ===== *)
theory Forwarder
  imports Config Effects
begin

text \<open>
  \<open>services/clawdbot-forwarder.ts\<close>: turning a WeChat message into a task for the agent in the user's VM
  and posting it to the webhook of the binding.  The texts are the Chinese literals of the source.
\<close>

section \<open>The task of a message\<close>

definition unrecognised_voice :: jsstr where
  "unrecognised_voice = js ''['' @ units [35821, 38899, 28040, 24687, 65292, 26080, 27861, 35782, 21035] @ js '']''"

definition image_prefix :: jsstr where
  "image_prefix = js ''['' @ units [22270, 29255, 28040, 24687] @ js ''] ''"

definition longitude_prefix :: jsstr where
  "longitude_prefix = js ''['' @ units [20301, 32622, 28040, 24687] @ js ''] '' @ units [32463, 24230] @ js '': ''"

definition latitude_infix :: jsstr where
  "latitude_infix = js '', '' @ units [32428, 24230] @ js '': ''"

definition link_prefix :: jsstr where
  "link_prefix = js ''['' @ units [38142, 25509, 28040, 24687] @ js ''] ''"

definition message_suffix :: jsstr where
  "message_suffix = units [28040, 24687] @ js '']''"

text \<open>
  The \<open>switch\<close> on \<open>message.MsgType\<close>.  Reading \<open>MsgType\<close> throws when the message is \<open>undefined\<close> or
  \<open>null\<close>; the later reads of its properties cannot.
\<close>

definition task_content :: "jsval \<Rightarrow> jserr + jsval" where
  "task_content message =
     sum_bind (get_prop message ''MsgType'') (\<lambda>msgType.
     let field = (\<lambda>name. opt_prop message name); or_empty = (\<lambda>v. js_or v (StrV []))
     in Inr (
       if msgType = str_val ''text'' then or_empty (field ''Content'')
       else if msgType = str_val ''voice'' then js_or (field ''Recognition'') (StrV unrecognised_voice)
       else if msgType = str_val ''image'' then StrV (image_prefix @ to_str (or_empty (field ''PicUrl'')))
       else if msgType = str_val ''location''
         then StrV (longitude_prefix @ to_str (field ''Location_Y'') @ latitude_infix
                @ to_str (field ''Location_X'') @ js '', '' @ to_str (or_empty (field ''Label'')))
       else if msgType = str_val ''link''
         then StrV (link_prefix @ to_str (or_empty (field ''Title'')) @ units [10]
                @ to_str (or_empty (field ''Description'')) @ units [10] @ to_str (or_empty (field ''Url'')))
       else StrV (js ''['' @ to_str msgType @ message_suffix)))"

section \<open>Forwarding\<close>

definition callback_url :: "config \<Rightarrow> jsval \<Rightarrow> jsstr" where
  "callback_url cfg openId = br_baseUrl (cf_bridge cfg) @ js ''/callback/'' @ to_str openId"

definition webhook_payload :: "config \<Rightarrow> jsval \<Rightarrow> jsval \<Rightarrow> jsval" where
  "webhook_payload cfg message task =
     obj [(''task'', task), (''callback_url'', StrV (callback_url cfg (opt_prop message ''FromUserName''))),
          (''metadata'', obj [(''openid'', opt_prop message ''FromUserName''),
                          (''msg_type'', opt_prop message ''MsgType''),
                          (''msg_id'', opt_prop message ''MsgId''),
                          (''timestamp'', opt_prop message ''CreateTime'')])]"

definition doForward :: "config \<Rightarrow> jsval \<Rightarrow> jsval \<Rightarrow> unit act" where
  "doForward cfg message binding =
     await (lift_sum (task_content message)) (\<lambda>task.
     await (lift_sum (get_prop binding ''webhookUrl'')) (\<lambda>url.
     await (http \<lparr>rq_method = POST, rq_url = to_str url, rq_params = [],
                  rq_body = Some (webhook_payload cfg message task), rq_timeout = Some (num_int 10000)\<rparr>)
       (\<lambda>response. Return ())))"

text \<open>\<open>doForward(..).catch(..)\<close>: started, not awaited, and its failure is only logged.\<close>

definition forward_task :: "config \<Rightarrow> jsval \<Rightarrow> jsval \<Rightarrow> unit act" where
  "forward_task cfg message binding = try_catch (doForward cfg message binding) (\<lambda>error. Return ())"

definition forwardToClawdbot :: "jsval \<Rightarrow> jsval \<Rightarrow> unit act" where
  "forwardToClawdbot message binding = spawn (ForwardTask message binding)"

section \<open>Lemmas\<close>

lemma no_throw_forward_task: "no_throw (forward_task cfg m b)"
  unfolding forward_task_def by (rule safe_try_catch [where F = "\<lambda>_. True"]) simp_all

lemma task_content_total: "m \<noteq> Undef \<Longrightarrow> m \<noteq> Null \<Longrightarrow> \<exists>t. task_content m = Inr t"
  by (cases m) (simp_all add: task_content_def Let_def)

text \<open>A message that can be read is posted once, to the webhook of the binding.\<close>

lemma transcript_forward_task:
  assumes "m \<noteq> Undef" "m \<noteq> Null" "get_prop b ''webhookUrl'' = Inr url"
  obtains q t r where "task_content m = Inr t" "transcript sv (forward_task cfg m b) w = [(Http q, r)]"
    "rq_url q = to_str url" "rq_body q = Some (webhook_payload cfg m t)" "rq_method q = POST"
proof -
  let ?q = "\<lambda>t. \<lparr>rq_method = POST, rq_url = to_str url, rq_params = [],
    rq_body = Some (webhook_payload cfg m t), rq_timeout = Some (num_int 10000)\<rparr>"
  obtain t where t: "task_content m = Inr t" using task_content_total assms by blast
  have "transcript sv (forward_task cfg m b) w = [(Http (?q t), fst (sv w (Http (?q t))))]"
    by (simp add: forward_task_def doForward_def t assms(3) http_def split: resp.split)
  from that [OF t this] show thesis by simp
qed

end
