(* ===== verification/RedisStore.thy ===== *)
theory RedisStore
  imports Effects
begin

text \<open>
  \<open>services/redis.ts\<close>: the binding of a WeChat user to a MicroVM, kept as JSON under
  \<open>vm:binding:<openid>\<close>.  The entry is read back as an unchecked cast (\<open>JSON.parse(data) as VMBinding\<close>)
  and the orchestrator writes the same key in its own format, so a binding that was read is a dynamic
  value; one that the bridge creates is the record \<open>vm_binding\<close>.
\<close>

section \<open>Bindings\<close>

datatype vm_status = Provisioning | Running | Stopped | ErrorStatus

fun status_str :: "vm_status \<Rightarrow> jsstr" where
  "status_str Provisioning = js ''provisioning''"
| "status_str Running = js ''running''"
| "status_str Stopped = js ''stopped''"
| "status_str ErrorStatus = js ''error''"

lemma status_str_inj [simp]: "status_str s = status_str t \<longleftrightarrow> s = t"
  by (cases s; cases t) (simp_all add: js_inj)

record vm_binding =
  vmIp :: jsval
  webhookUrl :: jsval
  vb_status :: vm_status
  createdAt :: int
  lastActiveAt :: int
  errorMessage :: "jsstr option"
  ssh_password :: "jsstr option"

definition opt_field :: "string \<Rightarrow> jsstr option \<Rightarrow> (string \<times> jsval) list" where
  "opt_field k x = (case x of None \<Rightarrow> [] | Some s \<Rightarrow> [(k, StrV s)])"

definition binding_val :: "vm_binding \<Rightarrow> jsval" where
  "binding_val b = obj
     ([(''vmIp'', vmIp b), (''webhookUrl'', webhookUrl b), (''status'', StrV (status_str (vb_status b))),
       (''createdAt'', int_val (createdAt b)), (''lastActiveAt'', int_val (lastActiveAt b))]
      @ opt_field ''errorMessage'' (errorMessage b) @ opt_field ''ssh_password'' (ssh_password b))"

section \<open>Operations\<close>

definition VM_BINDING_PREFIX :: jsstr where
  "VM_BINDING_PREFIX = js ''vm:binding:''"

definition binding_key :: "jsval \<Rightarrow> jsstr" where
  "binding_key openId = VM_BINDING_PREFIX @ to_str openId"

definition setVMBinding :: "jsval \<Rightarrow> jsval \<Rightarrow> unit act" where
  "setVMBinding openId binding =
     await (redis_set (binding_key openId) (stringify binding) SetPlain) (\<lambda>_. Return ())"

text \<open>The value of an entry: \<open>null\<close> when it is missing, empty or not JSON.\<close>

definition decode_binding :: "jsstr option \<Rightarrow> jsval" where
  "decode_binding data =
     (case data of None \<Rightarrow> Null
      | Some d \<Rightarrow> if d = [] then Null else (case json_parse d of Inr v \<Rightarrow> v | Inl _ \<Rightarrow> Null))"

definition getVMBinding :: "jsval \<Rightarrow> jsval act" where
  "getVMBinding openId = await (redis_get (binding_key openId)) (\<lambda>data. Return (decode_binding data))"

text \<open>\<open>binding.status = status; binding.lastActiveAt = Date.now(); Object.assign(binding, extraFields)\<close>\<close>

definition touch_binding :: "jsval \<Rightarrow> vm_status \<Rightarrow> int \<Rightarrow> (string \<times> jsval) list option \<Rightarrow> jserr + jsval" where
  "touch_binding binding status now extraFields =
     sum_bind (set_prop binding ''status'' (StrV (status_str status))) (\<lambda>b1.
     sum_bind (set_prop b1 ''lastActiveAt'' (int_val now)) (\<lambda>b2.
     Inr (case extraFields of None \<Rightarrow> b2 | Some fs \<Rightarrow> assign_fields b2 fs)))"

definition updateVMBindingStatus :: "jsval \<Rightarrow> vm_status \<Rightarrow> (string \<times> jsval) list option \<Rightarrow> unit act" where
  "updateVMBindingStatus openId status extraFields =
     await (getVMBinding openId) (\<lambda>binding.
       if \<not> truthy binding then Return ()
       else await date_now (\<lambda>now.
            await (lift_sum (touch_binding binding status now extraFields)) (\<lambda>b.
            setVMBinding openId b)))"

definition deleteVMBinding :: "jsval \<Rightarrow> bool act" where
  "deleteVMBinding openId = await (redis_del (binding_key openId)) (\<lambda>n. Return (n > 0))"

definition hasVMBinding :: "jsval \<Rightarrow> bool act" where
  "hasVMBinding openId = await (redis_exists (binding_key openId)) (\<lambda>n. Return (n > 0))"

section \<open>Keys\<close>

lemma binding_key_inj [simp]: "binding_key u = binding_key v \<longleftrightarrow> to_str u = to_str v"
  by (simp add: binding_key_def)

lemma get_prop_opt_field:
  "get_prop (obj (opt_field k x)) k' = Inr (if k = k' then (case x of None \<Rightarrow> Undef | Some s \<Rightarrow> StrV s) else Undef)"
  by (cases x) (simp_all add: opt_field_def js_simps)

lemma get_prop_append:
  "get_prop (obj (fs @ gs)) k = (if k \<in> fst ` set fs then get_prop (obj fs) k else get_prop (obj gs) k)"
  by (induction fs) (force simp: js_simps)+

lemma get_prop_binding_val:
  "get_prop (binding_val b) ''vmIp'' = Inr (vmIp b)"
  "get_prop (binding_val b) ''webhookUrl'' = Inr (webhookUrl b)"
  "get_prop (binding_val b) ''status'' = Inr (StrV (status_str (vb_status b)))"
  "get_prop (binding_val b) ''createdAt'' = Inr (int_val (createdAt b))"
  "get_prop (binding_val b) ''lastActiveAt'' = Inr (int_val (lastActiveAt b))"
  "get_prop (binding_val b) ''errorMessage'' = Inr (case errorMessage b of None \<Rightarrow> Undef | Some s \<Rightarrow> StrV s)"
  "get_prop (binding_val b) ''ssh_password'' = Inr (case ssh_password b of None \<Rightarrow> Undef | Some s \<Rightarrow> StrV s)"
  by (simp_all add: binding_val_def js_simps get_prop_append get_prop_opt_field opt_field_def split: option.splits)

lemma truthy_binding_val [simp]: "truthy (binding_val b)"
  by (simp add: binding_val_def obj_def)

text \<open>A binding whose address fields are printable is printed without loss.\<close>

lemma json_ok_obj:
  "json_ok (obj fs) \<longleftrightarrow> distinct (map fst fs) \<and> list_all (\<lambda>(k, v). json_ok v) fs"
proof -
  have "map fst (map (\<lambda>(k, v). (js k, v)) fs) = map js (map fst fs)"
    by (simp add: case_prod_beta')
  moreover have "distinct (map js ks) \<longleftrightarrow> distinct ks" for ks
    by (simp add: distinct_map inj_on_def js_inj)
  moreover have "list_all (\<lambda>(k, v). json_ok v) (map (\<lambda>(k, v). (js k, v)) fs) \<longleftrightarrow> list_all (\<lambda>(k, v). json_ok v) fs"
    by (simp add: list.pred_map comp_def case_prod_beta')
  ultimately show ?thesis by (simp only: obj_def json_ok.simps)
qed

lemma json_ok_binding_val:
  assumes "json_ok (vmIp b)" and "json_ok (webhookUrl b)"
    and "\<bar>createdAt b\<bar> < 10 ^ 21" and "\<bar>lastActiveAt b\<bar> < 10 ^ 21"
  shows "json_ok (binding_val b)"
  using assms by (cases "errorMessage b"; cases "ssh_password b")
    (simp_all add: binding_val_def json_ok_obj opt_field_def)

lemma stringify_ne [simp]: "stringify v \<noteq> []"
proof (cases v)
  case (NumV n)
  then show ?thesis
  proof (cases n)
    case (Dec m k)
    have "strip_zeros (nat_digits x) \<noteq> [] \<or> x = 0" for x
    proof (cases "x = 0")
      case False
      have "hd (nat_digits x) \<in> set (nat_digits x)" by simp
      with nat_digits_leading [OF False] show ?thesis by (auto simp: strip_zeros_def)
    qed simp
    then have "abs_num_str x k \<noteq> []" if "x \<noteq> 0" for x
      using that
      by (auto simp: abs_num_str_def Let_def js_Cons)
    then show ?thesis using NumV Dec by simp
  qed (simp add: NumV)
qed (simp_all add: json_quote_def)

lemma decode_stringify: "json_ok v \<Longrightarrow> decode_binding (Some (stringify v)) = v"
  by (simp add: decode_binding_def json_parse_stringify)

section \<open>Updating a binding\<close>

text \<open>\<open>touch_binding\<close> changes the status, the activity time and the extra fields, and nothing else.\<close>

lemma touch_binding_obj:
  "touch_binding (ObjV kvs) s t None =
     Inr (ObjV (obj_put (obj_put kvs (js ''status'') (StrV (status_str s))) (js ''lastActiveAt'') (int_val t)))"
  by (simp add: touch_binding_def)

lemma touch_binding_obj_extra:
  "touch_binding (ObjV kvs) s t (Some [(k, x)]) =
     Inr (ObjV (obj_put (obj_put (obj_put kvs (js ''status'') (StrV (status_str s)))
       (js ''lastActiveAt'') (int_val t)) (js k) x))"
  by (simp add: touch_binding_def)

lemma json_ok_obj_put:
  "json_ok (ObjV kvs) \<Longrightarrow> json_ok v \<Longrightarrow> json_ok (ObjV (obj_put kvs k v))"
proof -
  assume ok: "json_ok (ObjV kvs)" "json_ok v"
  have "list_all (\<lambda>(k, v). json_ok v) (obj_put kvs k v)"
    using ok by (induction kvs) auto
  with ok show ?thesis by (simp add: distinct_obj_put)
qed

lemma touch_binding_json_ok:
  assumes "json_ok (ObjV kvs)" and "\<bar>t\<bar> < 10 ^ 21" and "case fs of None \<Rightarrow> True | Some fs \<Rightarrow> list_all (\<lambda>(k, v). json_ok v) fs"
    and "touch_binding (ObjV kvs) s t fs = Inr b"
  shows "json_ok b \<and> (\<exists>kvs'. b = ObjV kvs')"
proof -
  have ok: "json_ok (ObjV (obj_put (obj_put kvs (js ''status'') (StrV (status_str s))) (js ''lastActiveAt'') (int_val t)))"
    using assms by (intro json_ok_obj_put) simp_all
  have "json_ok (ObjV (foldl (\<lambda>o' (k, x). obj_put o' (js k) x) kvs' gs))"
    if "json_ok (ObjV kvs')" "list_all (\<lambda>(k, v). json_ok v) gs" for kvs' gs
    using that by (induction gs arbitrary: kvs') (auto intro!: json_ok_obj_put simp del: json_ok.simps(8))
  with ok assms(3,4) show ?thesis
    by (cases fs) (auto simp: touch_binding_def simp del: json_ok.simps(8))
qed

section \<open>Footprint\<close>

text \<open>Each operation issues commands on the one key of its user, and the reading ones write nothing.\<close>

fun on_key :: "jsstr \<Rightarrow> req \<Rightarrow> bool" where
  "on_key k (RedisGet k') \<longleftrightarrow> k' = k"
| "on_key k (RedisSet k' v m) \<longleftrightarrow> k' = k"
| "on_key k (RedisDel k') \<longleftrightarrow> k' = k"
| "on_key k (RedisExists k') \<longleftrightarrow> k' = k"
| "on_key k DateNow \<longleftrightarrow> True"
| "on_key k _ \<longleftrightarrow> False"

fun read_only :: "req \<Rightarrow> bool" where
  "read_only (RedisGet k) \<longleftrightarrow> True"
| "read_only (RedisExists k) \<longleftrightarrow> True"
| "read_only DateNow \<longleftrightarrow> True"
| "read_only _ \<longleftrightarrow> False"

lemma requests_getVMBinding: "P (RedisGet (binding_key u)) \<Longrightarrow> requests P (getVMBinding u)"
  unfolding getVMBinding_def by (auto intro!: safe_intros)

lemma requests_setVMBinding:
  "(\<And>v. P (RedisSet (binding_key u) v SetPlain)) \<Longrightarrow> requests P (setVMBinding u b)"
  unfolding setVMBinding_def by (auto intro!: safe_intros)

lemma requests_updateVMBindingStatus:
  assumes "P (RedisGet (binding_key u))" and "P DateNow" and "\<And>v. P (RedisSet (binding_key u) v SetPlain)"
  shows "requests P (updateVMBindingStatus u s fs)"
  unfolding updateVMBindingStatus_def using assms
  by (auto intro!: safe_intros requests_getVMBinding requests_setVMBinding)

lemma requests_deleteVMBinding: "P (RedisDel (binding_key u)) \<Longrightarrow> requests P (deleteVMBinding u)"
  unfolding deleteVMBinding_def by (auto intro!: safe_intros)

lemma requests_hasVMBinding: "P (RedisExists (binding_key u)) \<Longrightarrow> requests P (hasVMBinding u)"
  unfolding hasVMBinding_def by (auto intro!: safe_intros)

lemmas store_requests = requests_getVMBinding requests_setVMBinding requests_updateVMBindingStatus
  requests_deleteVMBinding requests_hasVMBinding

end
