(* ===== verification/RedisService.thy ===== *)
theory RedisService
  imports RedisStore
begin

text \<open>
  The two interfaces around \<open>services/redis.ts\<close>.  \<open>redis_service\<close> is what the code relies on of the
  Redis server (the documented behaviour of \<open>GET\<close>, \<open>SET\<close>, \<open>SET .. EX .. NX\<close>, \<open>DEL\<close> and \<open>EXISTS\<close>, each
  of which may also fail, and a failed write may or may not have happened) and of the clock.
  \<open>binding_store\<close> is what the routes rely on of \<open>services/redis.ts\<close>; the \<open>sublocale\<close> proves it for
  the functions of \<open>RedisStore\<close> over any Redis server.  \<open>Keyspace\<close> provides a reference server.
\<close>

section \<open>The Redis server\<close>

definition failed :: "resp \<Rightarrow> bool" where
  "failed r \<longleftrightarrow> (case r of Failed e \<Rightarrow> True | _ \<Rightarrow> False)"

lemma failed_simps [simp]:
  "failed (Failed e)" "\<not> failed (GotStr s)" "\<not> failed (GotBool b)" "\<not> failed (GotNum n)"
  "\<not> failed (GotBytes bs)" "\<not> failed (GotHttp h)" "\<not> failed Done"
  by (simp_all add: failed_def)

lemma failedE: "failed r \<Longrightarrow> (\<And>e. r = Failed e \<Longrightarrow> thesis) \<Longrightarrow> thesis"
  by (cases r) simp_all

locale redis_service =
  fixes sv :: "'w service" and keys :: "'w \<Rightarrow> jsstr \<Rightarrow> jsstr option"
  assumes get_law: "failed (fst (sv w (RedisGet k))) \<or> fst (sv w (RedisGet k)) = GotStr (keys w k)"
    and get_frame: "keys (snd (sv w (RedisGet k))) = keys w"
    and exists_law: "failed (fst (sv w (RedisExists k)))
      \<or> fst (sv w (RedisExists k)) = GotNum (if keys w k = None then 0 else 1)"
    and exists_frame: "keys (snd (sv w (RedisExists k))) = keys w"
    and set_law: "if failed (fst (sv w (RedisSet k v SetPlain)))
      then keys (snd (sv w (RedisSet k v SetPlain))) \<in> {keys w, (keys w)(k \<mapsto> v)}
      else fst (sv w (RedisSet k v SetPlain)) = GotBool True
        \<and> keys (snd (sv w (RedisSet k v SetPlain))) = (keys w)(k \<mapsto> v)"
    and del_law: "if failed (fst (sv w (RedisDel k)))
      then keys (snd (sv w (RedisDel k))) \<in> {keys w, (keys w)(k := None)}
      else fst (sv w (RedisDel k)) = GotNum (if keys w k = None then 0 else 1)
        \<and> keys (snd (sv w (RedisDel k))) = (keys w)(k := None)"
    and clock_law: "\<exists>t. fst (sv w DateNow) = GotNum t"
    and clock_frame: "keys (snd (sv w DateNow)) = keys w"

text \<open>
  A lock key \<open>lk\<close> taken with \<open>SET lk .. EX .. NX\<close>: \<open>NX\<close> succeeds exactly when the key is free, and a
  lock with a time to live (\<open>timed\<close>) is gone once the \<open>remaining\<close> milliseconds have passed, as long
  as no other process takes it again.
\<close>

locale redis_lock = redis_service sv keys
  for sv :: "'w service" and keys :: "'w \<Rightarrow> jsstr \<Rightarrow> jsstr option" +
  fixes lk :: jsstr and remaining :: "'w \<Rightarrow> nat" and timed :: "'w \<Rightarrow> bool"
  assumes nx_law: "\<not> failed (fst (sv w (RedisSet k v (SetNxEx ttl)))) \<Longrightarrow>
      fst (sv w (RedisSet k v (SetNxEx ttl))) = GotBool (keys w k = None)
      \<and> (keys w k \<noteq> None \<longrightarrow> keys (snd (sv w (RedisSet k v (SetNxEx ttl)))) = keys w)"
    and free_law: "timed w \<Longrightarrow> remaining w = 0 \<Longrightarrow> keys w lk = None"
    and get_remaining: "timed w \<Longrightarrow> timed (snd (sv w (RedisGet k))) \<and> remaining (snd (sv w (RedisGet k))) = remaining w"
    and clock_remaining: "timed w \<Longrightarrow> timed (snd (sv w DateNow)) \<and> remaining (snd (sv w DateNow)) = remaining w"
    and nx_remaining: "timed w \<Longrightarrow> keys w lk \<noteq> None \<Longrightarrow>
      timed (snd (sv w (RedisSet lk v (SetNxEx ttl))))
      \<and> remaining (snd (sv w (RedisSet lk v (SetNxEx ttl)))) = remaining w"
    and sleep_remaining: "timed w \<Longrightarrow> timed (snd (sv w (Sleep ms)))
      \<and> remaining (snd (sv w (Sleep ms))) \<le> remaining w - ms"

section \<open>The binding store\<close>

locale binding_store =
  fixes lookup :: "'w \<Rightarrow> jsval \<Rightarrow> jsval"
    and get :: "jsval \<Rightarrow> 'w \<Rightarrow> jsval outcome \<times> 'w"
    and put :: "jsval \<Rightarrow> jsval \<Rightarrow> 'w \<Rightarrow> unit outcome \<times> 'w"
    and del :: "jsval \<Rightarrow> 'w \<Rightarrow> bool outcome \<times> 'w"
  assumes get_value: "get u w = (Returned v, w') \<Longrightarrow> v = lookup w u"
    and get_same: "get u w = (r, w') \<Longrightarrow> lookup w' = lookup w"
    and put_value: "put u b w = (Returned x, w') \<Longrightarrow> json_ok b \<Longrightarrow> lookup w' u = b"
    and put_other: "put u b w = (rp, w') \<Longrightarrow> to_str u' \<noteq> to_str u \<Longrightarrow> lookup w' u' = lookup w u'"
    and del_value: "del u w = (Returned found, w') \<Longrightarrow> lookup w' u = Null"
    and del_other: "del u w = (rd, w') \<Longrightarrow> to_str u' \<noteq> to_str u \<Longrightarrow> lookup w' u' = lookup w u'"
begin

lemma put_get:
  assumes "put u b w = (Returned x, w1)" and "json_ok b" and "get u w1 = (Returned v, w2)"
  shows "v = b"
  using get_value [OF assms(3)] put_value [OF assms(1,2)] by simp

lemma del_get:
  assumes "del u w = (Returned x, w1)" and "get u w1 = (Returned v, w2)"
  shows "v = Null"
  using get_value [OF assms(2)] del_value [OF assms(1)] by simp

lemma put_get_other:
  assumes "put u b w = (r, w1)" and "to_str u' \<noteq> to_str u" and "get u' w1 = (Returned v, w2)"
  shows "v = lookup w u'"
  using get_value [OF assms(3)] put_other [OF assms(1,2)] by simp

end

context redis_service
begin

lemma run_redis_get:
  "run sv (redis_get k) w = (r, w') \<Longrightarrow> keys w' = keys w \<and> (r = Returned (keys w k) \<or> (\<exists>e. r = Threw e))"
  using get_law [of w k] get_frame [of w k]
  by (auto simp: redis_get_def elim!: failedE split: resp.splits)

lemma run_redis_set:
  "run sv (redis_set k v SetPlain) w = (r, w') \<Longrightarrow>
     (r = Returned True \<and> keys w' = (keys w)(k \<mapsto> v)) \<or>
     ((\<exists>e. r = Threw e) \<and> keys w' \<in> {keys w, (keys w)(k \<mapsto> v)})"
  using set_law [of w k v]
  by (auto simp: redis_set_def elim!: failedE split: resp.splits if_splits)

lemma run_redis_del:
  "run sv (redis_del k) w = (r, w') \<Longrightarrow>
     (r = Returned (if keys w k = None then 0 else 1) \<and> keys w' = (keys w)(k := None)) \<or>
     ((\<exists>e. r = Threw e) \<and> keys w' \<in> {keys w, (keys w)(k := None)})"
  using del_law [of w k]
  by (auto simp: redis_del_def elim!: failedE split: resp.splits if_splits)

lemma run_redis_exists:
  "run sv (redis_exists k) w = (r, w') \<Longrightarrow>
     keys w' = keys w \<and> (r = Returned (if keys w k = None then 0 else 1) \<or> (\<exists>e. r = Threw e))"
  using exists_law [of w k] exists_frame [of w k]
  by (auto simp: redis_exists_def elim!: failedE split: resp.splits if_splits)

lemma run_date_now:
  "run sv date_now w = (r, w') \<Longrightarrow> keys w' = keys w \<and> (\<exists>t. r = Returned t)"
  using clock_law [of w] clock_frame [of w] by (auto simp: date_now_def split: resp.splits)

lemma run_getVMBinding:
  assumes "run sv (getVMBinding u) w = (r, w')"
  shows "keys w' = keys w" and "r = Returned (decode_binding (keys w (binding_key u))) \<or> (\<exists>e. r = Threw e)"
proof -
  obtain r1 w1 where r1: "run sv (redis_get (binding_key u)) w = (r1, w1)" by fastforce
  from run_redis_get [OF r1] assms r1
  show "keys w' = keys w" "r = Returned (decode_binding (keys w (binding_key u))) \<or> (\<exists>e. r = Threw e)"
    by (auto simp: getVMBinding_def act_simps split: outcome.splits)
qed

lemma run_setVMBinding:
  assumes "run sv (setVMBinding u b) w = (r, w')"
  shows "(r = Returned () \<and> keys w' = (keys w)(binding_key u \<mapsto> stringify b)) \<or>
     ((\<exists>e. r = Threw e) \<and> keys w' \<in> {keys w, (keys w)(binding_key u \<mapsto> stringify b)})"
proof -
  obtain r1 w1 where r1: "run sv (redis_set (binding_key u) (stringify b) SetPlain) w = (r1, w1)"
    by fastforce
  from run_redis_set [OF r1] assms r1 show ?thesis
    by (auto simp: setVMBinding_def act_simps split: outcome.splits)
qed

lemma run_deleteVMBinding:
  assumes "run sv (deleteVMBinding u) w = (r, w')"
  shows "(r = Returned (keys w (binding_key u) \<noteq> None) \<and> keys w' = (keys w)(binding_key u := None)) \<or>
     ((\<exists>e. r = Threw e) \<and> keys w' \<in> {keys w, (keys w)(binding_key u := None)})"
proof -
  obtain r1 w1 where r1: "run sv (redis_del (binding_key u)) w = (r1, w1)" by fastforce
  from run_redis_del [OF r1] assms r1 show ?thesis
    by (auto simp: deleteVMBinding_def act_simps split: outcome.splits if_splits)
qed

lemma run_hasVMBinding:
  assumes "run sv (hasVMBinding u) w = (Returned b, w')"
  shows "b \<longleftrightarrow> keys w (binding_key u) \<noteq> None"
proof -
  obtain r1 w1 where r1: "run sv (redis_exists (binding_key u)) w = (r1, w1)" by fastforce
  from run_redis_exists [OF r1] assms r1 show ?thesis
    by (auto simp: hasVMBinding_def act_simps split: outcome.splits if_splits)
qed

lemma run_updateVMBindingStatus:
  assumes "run sv (updateVMBindingStatus u s fs) w = (Returned x, w')"
    and "truthy (decode_binding (keys w (binding_key u)))"
  obtains t b where "touch_binding (decode_binding (keys w (binding_key u))) s t fs = Inr b"
    and "keys w' = (keys w)(binding_key u \<mapsto> stringify b)"
proof -
  let ?b = "decode_binding (keys w (binding_key u))"
  obtain r1 w1 where r1: "run sv (getVMBinding u) w = (r1, w1)" by fastforce
  have g: "keys w1 = keys w" "r1 = Returned ?b"
    using run_getVMBinding [OF r1] assms(1) r1
    by (auto simp: updateVMBindingStatus_def act_simps split: outcome.splits)
  obtain r2 w2 where r2: "run sv date_now w1 = (r2, w2)" by fastforce
  obtain t where t: "keys w2 = keys w1" "r2 = Returned t" using run_date_now [OF r2] by blast
  obtain b where b: "touch_binding ?b s t fs = Inr b" "run sv (setVMBinding u b) w2 = (Returned x, w')"
    using assms r1 g r2 t
    by (cases "touch_binding ?b s t fs") (auto simp: updateVMBindingStatus_def act_simps)
  from run_setVMBinding [OF b(2)] g t have "keys w' = (keys w)(binding_key u \<mapsto> stringify b)" by auto
  with b that show thesis by blast
qed

lemma run_update_absent:
  assumes "run sv (updateVMBindingStatus u s fs) w = (r, w')"
    and "\<not> truthy (decode_binding (keys w (binding_key u)))"
  shows "keys w' = keys w"
proof -
  obtain r1 w1 where r1: "run sv (getVMBinding u) w = (r1, w1)" by fastforce
  from run_getVMBinding [OF r1] assms r1 show ?thesis
    by (auto simp: updateVMBindingStatus_def act_simps split: outcome.splits)
qed

lemma keys_off_footprint:
  assumes "on_key k r" and "case r of RedisSet k' v m \<Rightarrow> m = SetPlain | _ \<Rightarrow> True" and "k' \<noteq> k"
  shows "keys (snd (sv w r)) k' = keys w k'"
proof (cases r)
  case (RedisSet k2 v m)
  with assms set_law [of w k v] show ?thesis by (auto split: if_splits)
next
  case (RedisDel k2)
  with assms del_law [of w k] show ?thesis by (auto split: if_splits)
qed (use assms get_frame exists_frame clock_frame in auto)

end

sublocale redis_service \<subseteq> store: binding_store
  "\<lambda>w u. decode_binding (keys w (binding_key u))"
  "\<lambda>u. run sv (getVMBinding u)" "\<lambda>u b. run sv (setVMBinding u b)" "\<lambda>u. run sv (deleteVMBinding u)"
proof unfold_locales
  fix u v w w'
  assume "run sv (getVMBinding u) w = (Returned v, w')"
  then show "v = decode_binding (keys w (binding_key u))" by (auto dest: run_getVMBinding)
next
  fix u w r w'
  assume "run sv (getVMBinding u) w = (r, w')"
  then show "(\<lambda>u. decode_binding (keys w' (binding_key u))) = (\<lambda>u. decode_binding (keys w (binding_key u)))"
    by (auto dest: run_getVMBinding)
next
  fix u b w x w'
  assume "run sv (setVMBinding u b) w = (Returned x, w')" "json_ok b"
  then show "decode_binding (keys w' (binding_key u)) = b"
    by (auto dest!: run_setVMBinding simp: decode_stringify)
next
  fix u b w r w' u'
  assume "run sv (setVMBinding u b) w = (r, w')" "to_str u' \<noteq> to_str u"
  then show "decode_binding (keys w' (binding_key u')) = decode_binding (keys w (binding_key u'))"
    by (auto dest!: run_setVMBinding)
next
  fix u w x w'
  assume "run sv (deleteVMBinding u) w = (Returned x, w')"
  then show "decode_binding (keys w' (binding_key u)) = Null"
    by (auto dest!: run_deleteVMBinding simp: decode_binding_def)
next
  fix u w r w' u'
  assume "run sv (deleteVMBinding u) w = (r, w')" "to_str u' \<noteq> to_str u"
  then show "decode_binding (keys w' (binding_key u')) = decode_binding (keys w (binding_key u'))"
    by (auto dest!: run_deleteVMBinding)
qed

end
