(* ===== verification/WechatToken.thy ===== *)
theory WechatToken
  imports RedisService Config
begin

text \<open>
  \<open>services/wechat-token.ts\<close>: the access token of the WeChat API, cached in Redis and refreshed under
  a lock (\<open>SET wechat:access_token:lock 1 EX 30 NX\<close>).  A process that does not get the lock sleeps a
  second and starts again; the source has no bound on these rounds, so the model counts them with
  fuel, and \<open>enough_fuel\<close> shows how much is enough.
\<close>

section \<open>Operations\<close>

definition TOKEN_KEY :: jsstr where
  "TOKEN_KEY = js ''wechat:access_token''"

definition TOKEN_LOCK_KEY :: jsstr where
  "TOKEN_LOCK_KEY = js ''wechat:access_token:lock''"

definition TOKEN_REFRESH_THRESHOLD :: int where
  "TOKEN_REFRESH_THRESHOLD = 600"

definition token_request :: "config \<Rightarrow> http_req" where
  "token_request cfg =
     \<lparr>rq_method = GET, rq_url = js ''https://api.weixin.qq.com/cgi-bin/token'',
      rq_params = [(''grant_type'', str_val ''client_credential''),
                   (''appid'', StrV (wc_appId (cf_wechat cfg))),
                   (''secret'', StrV (wc_appSecret (cf_wechat cfg)))],
      rq_body = None, rq_timeout = None\<rparr>"

text \<open>The body of \<open>getAccessToken\<close>, given what \<open>refreshAccessToken()\<close> does.\<close>

definition get_token_with :: "jsval act \<Rightarrow> jsval act" where
  "get_token_with refresh =
     await (redis_get TOKEN_KEY) (\<lambda>cached.
       case cached of
         None \<Rightarrow> refresh
       | Some c \<Rightarrow>
           if c = [] then refresh
           else await (lift_sum (json_parse c)) (\<lambda>tokenData.
                await now_seconds (\<lambda>now.
                await (lift_sum (get_prop tokenData ''expiresAt'')) (\<lambda>expiresAt.
                if num_less (num_int now) (js_sub expiresAt (int_val TOKEN_REFRESH_THRESHOLD))
                then lift_sum (get_prop tokenData ''accessToken'')
                else refresh))))"

text \<open>The \<open>try\<close> block of \<open>refreshAccessToken\<close>.\<close>

definition fetch_token :: "config \<Rightarrow> jsval act" where
  "fetch_token cfg =
     await (http (token_request cfg)) (\<lambda>response.
     await (lift_sum (get_prop (rs_data response) ''errcode'')) (\<lambda>errcode.
     await (lift_sum (get_prop (rs_data response) ''errmsg'')) (\<lambda>errmsg.
     if truthy errcode
     then Throw (ErrorObj GenericError (js ''WeChat API error: '' @ to_str errcode @ js '' - '' @ to_str errmsg) None)
     else await (lift_sum (get_prop (rs_data response) ''access_token'')) (\<lambda>access_token.
          await (lift_sum (get_prop (rs_data response) ''expires_in'')) (\<lambda>expires_in.
          await now_seconds (\<lambda>now.
          await (redis_set TOKEN_KEY
                  (stringify (obj [(''accessToken'', access_token), (''expiresAt'', js_add (int_val now) expires_in)]))
                  (SetEx expires_in)) (\<lambda>_.
          Return access_token)))))))"

text \<open>\<open>refreshAccessToken\<close>, given what it does when another process holds the lock.\<close>

definition refresh_token_with :: "config \<Rightarrow> jsval act \<Rightarrow> jsval act" where
  "refresh_token_with cfg retry =
     await (redis_set TOKEN_LOCK_KEY (js ''1'') (SetNxEx 30)) (\<lambda>lockAcquired.
       if \<not> lockAcquired then retry
       else try_finally (fetch_token cfg) (await (redis_del TOKEN_LOCK_KEY) (\<lambda>_. Return ())))"

primrec getAccessToken :: "config \<Rightarrow> nat \<Rightarrow> jsval act" where
  "getAccessToken cfg 0 = get_token_with (refresh_token_with cfg (await (sleep 1000) (\<lambda>_. Diverge)))"
| "getAccessToken cfg (Suc n) =
     get_token_with (refresh_token_with cfg (await (sleep 1000) (\<lambda>_. getAccessToken cfg n)))"

definition retry_token :: "config \<Rightarrow> nat \<Rightarrow> jsval act" where
  "retry_token cfg n = await (sleep 1000) (\<lambda>_. case n of 0 \<Rightarrow> Diverge | Suc m \<Rightarrow> getAccessToken cfg m)"

definition refreshAccessToken :: "config \<Rightarrow> nat \<Rightarrow> jsval act" where
  "refreshAccessToken cfg n = refresh_token_with cfg (retry_token cfg n)"

definition forceRefreshToken :: "config \<Rightarrow> nat \<Rightarrow> jsval act" where
  "forceRefreshToken cfg n = await (redis_del TOKEN_KEY) (\<lambda>_. refreshAccessToken cfg n)"

lemma getAccessToken_eq: "getAccessToken cfg n = get_token_with (refreshAccessToken cfg n)"
  by (cases n) (simp_all add: refreshAccessToken_def retry_token_def)

section \<open>Footprint\<close>

text \<open>What fetching a token may ask of the outside world.\<close>

fun token_req :: "config \<Rightarrow> req \<Rightarrow> bool" where
  "token_req cfg (RedisGet k) \<longleftrightarrow> k = TOKEN_KEY"
| "token_req cfg (RedisSet k v m) \<longleftrightarrow>
     (k = TOKEN_KEY \<and> (\<exists>ttl. m = SetEx ttl)) \<or> (k = TOKEN_LOCK_KEY \<and> m = SetNxEx 30)"
| "token_req cfg (RedisDel k) \<longleftrightarrow> k = TOKEN_LOCK_KEY \<or> k = TOKEN_KEY"
| "token_req cfg (Http q) \<longleftrightarrow> q = token_request cfg"
| "token_req cfg DateNow \<longleftrightarrow> True"
| "token_req cfg (Sleep ms) \<longleftrightarrow> ms = 1000"
| "token_req cfg _ \<longleftrightarrow> False"

lemma requests_fetch_token: "requests (token_req cfg) (fetch_token cfg)"
  unfolding fetch_token_def by (auto intro!: safe_intros)

lemma requests_get_token_with:
  "requests (token_req cfg) refresh \<Longrightarrow> requests (token_req cfg) (get_token_with refresh)"
  unfolding get_token_with_def
  by (auto intro!: safe_intros split: option.split)

lemma requests_refresh_token_with:
  "requests (token_req cfg) retry \<Longrightarrow> requests (token_req cfg) (refresh_token_with cfg retry)"
  unfolding refresh_token_with_def
  by (auto intro!: safe_intros requests_fetch_token)

lemma requests_getAccessToken: "requests (token_req cfg) (getAccessToken cfg n)"
proof (induction n)
  case 0
  show ?case by (auto intro!: requests_get_token_with requests_refresh_token_with safe_intros)
next
  case (Suc n)
  then show ?case
    by (auto intro!: requests_get_token_with requests_refresh_token_with safe_intros)
qed

lemma requests_refreshAccessToken: "requests (token_req cfg) (refreshAccessToken cfg n)"
  unfolding refreshAccessToken_def retry_token_def
  by (auto intro!: requests_refresh_token_with safe_intros requests_getAccessToken
      split: nat.split)

lemma requests_forceRefreshToken: "requests (token_req cfg) (forceRefreshToken cfg n)"
  unfolding forceRefreshToken_def
  by (auto intro!: safe_intros requests_refreshAccessToken)

lemmas token_requests = requests_getAccessToken requests_refreshAccessToken requests_forceRefreshToken

text \<open>A binding key is never a key of the token cache.\<close>

lemma binding_key_not_token [simp]:
  "binding_key u \<noteq> TOKEN_KEY" "binding_key u \<noteq> TOKEN_LOCK_KEY"
  "TOKEN_KEY \<noteq> binding_key u" "TOKEN_LOCK_KEY \<noteq> binding_key u"
  by (auto simp: binding_key_def VM_BINDING_PREFIX_def TOKEN_KEY_def TOKEN_LOCK_KEY_def js_Cons)

lemma token_keys_distinct [simp]: "TOKEN_KEY \<noteq> TOKEN_LOCK_KEY"
  by (simp add: TOKEN_KEY_def TOKEN_LOCK_KEY_def js_Cons)

section \<open>Reading the cache\<close>

definition token_entry :: "jsval \<Rightarrow> int \<Rightarrow> jsval" where
  "token_entry tok expires = obj [(''accessToken'', tok), (''expiresAt'', int_val expires)]"

lemma json_ok_token_entry: "json_ok tok \<Longrightarrow> \<bar>e\<bar> < 10 ^ 21 \<Longrightarrow> json_ok (token_entry tok e)"
  by (simp add: token_entry_def json_ok_obj)

lemma converges_fetch_token: "converges (fetch_token cfg)"
  unfolding fetch_token_def by (auto intro!: converges_await)

context redis_service
begin

text \<open>Which branch \<open>getAccessToken\<close> takes on an entry this module wrote.\<close>

lemma run_get_token_with:
  assumes "keys w TOKEN_KEY = Some (stringify (token_entry tok e))"
    and "json_ok tok" and "\<bar>e\<bar> < 10 ^ 21"
    and "\<not> failed (fst (sv w (RedisGet TOKEN_KEY)))"
    and "fst (sv (snd (sv w (RedisGet TOKEN_KEY))) DateNow) = GotNum t"
  shows "run sv (get_token_with refresh) w =
    (if t div 1000 < e - TOKEN_REFRESH_THRESHOLD
     then (Returned tok, snd (sv (snd (sv w (RedisGet TOKEN_KEY))) DateNow))
     else run sv refresh (snd (sv (snd (sv w (RedisGet TOKEN_KEY))) DateNow)))"
proof -
  have get: "fst (sv w (RedisGet TOKEN_KEY)) = GotStr (Some (stringify (token_entry tok e)))"
    using get_law [of w TOKEN_KEY] assms by simp
  have parse: "json_parse (stringify (token_entry tok e)) = Inr (token_entry tok e)"
    using assms by (intro json_parse_stringify json_ok_token_entry)
  have "get_prop (token_entry tok e) ''expiresAt'' = Inr (int_val e)"
    "get_prop (token_entry tok e) ''accessToken'' = Inr tok"
    by (simp_all add: token_entry_def js_simps)
  with get parse assms(5) show ?thesis
    by (simp add: get_token_with_def redis_get_def now_seconds_def date_now_def run_await)
qed

end

section \<open>The lock\<close>

context redis_lock
begin

text \<open>A holder that gets as far as its \<open>finally\<close> block leaves the lock free, however it got there.\<close>

lemma lock_released:
  assumes lk: "lk = TOKEN_LOCK_KEY" and free: "keys w lk = None"
    and nx: "\<not> failed (fst (sv w (RedisSet lk (js ''1'') (SetNxEx 30))))"
    and del: "\<And>w. \<not> failed (fst (sv w (RedisDel lk)))"
    and run: "run sv (refresh_token_with cfg retry) w = (r, w')"
  shows "keys w' lk = None"
proof -
  have "fst (sv w (RedisSet lk (js ''1'') (SetNxEx 30))) = GotBool True"
    using nx_law [OF nx] free by simp
  then have eq: "run sv (refresh_token_with cfg retry) w =
      run sv (try_finally (fetch_token cfg) (await (redis_del lk) (\<lambda>_. Return ())))
        (snd (sv w (RedisSet lk (js ''1'') (SetNxEx 30))))"
    by (simp add: refresh_token_with_def redis_set_def lk)
  let ?w1 = "snd (sv w (RedisSet lk (js ''1'') (SetNxEx 30)))"
  obtain o1 w2 where o1: "run sv (fetch_token cfg) ?w1 = (o1, w2)" by fastforce
  with run_converges [OF converges_fetch_token, of sv cfg ?w1] have "o1 \<noteq> Exhausted" by simp
  moreover have "fst (sv w2 (RedisDel lk)) = GotNum (if keys w2 lk = None then 0 else 1)"
    "keys (snd (sv w2 (RedisDel lk))) lk = None"
    using del_law [of w2 lk] del [of w2] by auto
  ultimately have "keys (snd (run sv (refresh_token_with cfg retry) w)) lk = None"
    unfolding eq using o1
    by (cases o1) (auto simp: run_try_finally run_await redis_del_def)
  with run show ?thesis by simp
qed

text \<open>
  With one round of fuel for each second the lock has left, \<open>getAccessToken\<close> comes to an end: it gets
  the lock at the latest when the time to live of the other holder is over.
\<close>

lemma run_get_token_with_exhausted:
  assumes "fst (run sv (get_token_with refresh) w) = Exhausted" and "timed w"
  obtains w1 where "run sv refresh w1 = (Exhausted, snd (run sv (get_token_with refresh) w))"
    and "timed w1" and "remaining w1 = remaining w" and "keys w1 = keys w"
proof -
  let ?w1 = "snd (sv w (RedisGet TOKEN_KEY))" and ?w2 = "snd (sv (snd (sv w (RedisGet TOKEN_KEY))) DateNow)"
  have 1: "timed ?w1" "remaining ?w1 = remaining w" "keys ?w1 = keys w"
    using get_remaining [OF assms(2)] get_frame by auto
  have 2: "timed ?w2" "remaining ?w2 = remaining w" "keys ?w2 = keys w"
    using clock_remaining [OF 1(1)] clock_frame 1 by auto
  have "run sv refresh ?w1 = (Exhausted, snd (run sv (get_token_with refresh) w)) \<or>
        run sv refresh ?w2 = (Exhausted, snd (run sv (get_token_with refresh) w))"
    using assms(1) clock_law [of ?w1] prod.collapse
    by (auto simp: get_token_with_def redis_get_def now_seconds_def date_now_def run_await lift_sum_def
        split: resp.splits option.splits if_splits sum.splits intro!: prod_eqI)
  with 1 2 that show thesis by blast
qed

lemma enough_fuel:
  assumes lk: "lk = TOKEN_LOCK_KEY" and "timed w" and "remaining w \<le> 1000 * n"
  shows "fst (run sv (getAccessToken cfg n) w) \<noteq> Exhausted"
  using assms(2,3)
proof (induction n arbitrary: w)
  let ?set = "\<lambda>w. sv w (RedisSet lk (js ''1'') (SetNxEx 30))"
  have fin: "fst (run sv (try_finally (fetch_token cfg) (await (redis_del lk) (\<lambda>_. Return ()))) w) \<noteq> Exhausted" for w
    using run_converges [OF converges_fetch_token, of sv cfg w]
    by (auto simp: run_try_finally redis_del_def split: outcome.splits prod.splits resp.splits)
  have taken: "fst (?set w) = GotBool False" "timed (snd (?set w))" "remaining (snd (?set w)) = remaining w"
    if "run sv (refresh_token_with cfg retry) w = (Exhausted, w')" "timed w"  for retry w w'
  proof -
    have nf: "\<not> failed (fst (?set w))"
      using that(1) by (auto simp: refresh_token_with_def redis_set_def lk elim!: failedE)
    have "fst (?set w) \<noteq> GotBool True"
      using that(1) fin [of "snd (?set w)"] by (auto simp: refresh_token_with_def redis_set_def lk)
    with nx_law [OF nf] show "fst (?set w) = GotBool False" by auto
    with nx_law [OF nf] have "keys w lk \<noteq> None" by auto
    from nx_remaining [OF that(2) this]
    show "timed (snd (?set w))" "remaining (snd (?set w)) = remaining w" by auto
  qed
  {
    case 0
    show ?case
    proof
      assume "fst (run sv (getAccessToken cfg 0) w) = Exhausted"
      then obtain w1 where w1: "fst (run sv (refresh_token_with cfg (await (sleep 1000) (\<lambda>_. Diverge))) w1) = Exhausted"
        and "timed w1" "remaining w1 = 0"
        using 0 run_get_token_with_exhausted [of "refresh_token_with cfg (await (sleep 1000) (\<lambda>_. Diverge))" w]
        by (metis fst_conv getAccessToken.simps(1) le_zero_eq mult_0_right)
      have "keys w1 lk = None" using free_law \<open>timed w1\<close> \<open>remaining w1 = 0\<close> by blast
      moreover have "fst (?set w1) = GotBool False"
        using taken(1) [OF _ \<open>timed w1\<close>] w1 by (metis prod.collapse)
      ultimately show False using nx_law [of w1 lk "js ''1''" 30] by simp
    qed
  next
    case (Suc n)
    show ?case
    proof
      assume "fst (run sv (getAccessToken cfg (Suc n)) w) = Exhausted"
      then obtain w1 where w1: "fst (run sv (refresh_token_with cfg (await (sleep 1000) (\<lambda>_. getAccessToken cfg n))) w1) = Exhausted"
        and "timed w1" "remaining w1 = remaining w"
        using Suc.prems run_get_token_with_exhausted
          [of "refresh_token_with cfg (await (sleep 1000) (\<lambda>_. getAccessToken cfg n))" w]
        by (metis fst_conv getAccessToken.simps(2))
      from w1 obtain w' where run1: "run sv (refresh_token_with cfg (await (sleep 1000) (\<lambda>_. getAccessToken cfg n))) w1 = (Exhausted, w')"
        by (metis prod.collapse)
      note t = taken [OF run1 \<open>timed w1\<close>]
      let ?w2 = "snd (sv (snd (?set w1)) (Sleep 1000))"
      have "fst (run sv (getAccessToken cfg n) ?w2) = Exhausted"
        using run1 t(1) by (auto simp: refresh_token_with_def redis_set_def lk sleep_def run_await
            split: resp.splits)
      moreover have "timed ?w2" "remaining ?w2 \<le> 1000 * n"
        using sleep_remaining [OF t(2), of 1000] t(3) \<open>remaining w1 = remaining w\<close> Suc.prems by auto
      ultimately show False using Suc.IH by blast
    qed
  }
qed

end

end
