(* ===== verification/WechatMessage.thy ===== *)
theory WechatMessage
  imports WechatToken "HOL-Library.Sublist"
begin

text \<open>
  \<open>services/wechat-message.ts\<close>: sending a customer-service message, with one retry after a token
  error, and cutting a long text into messages of at most 600 code units.
\<close>

section \<open>Sending one message\<close>

definition CUSTOMER_SERVICE_API :: jsstr where
  "CUSTOMER_SERVICE_API = js ''https://api.weixin.qq.com/cgi-bin/message/custom/send''"

definition send_request :: "jsval \<Rightarrow> jsval \<Rightarrow> http_req" where
  "send_request accessToken message =
     \<lparr>rq_method = POST, rq_url = CUSTOMER_SERVICE_API @ js ''?access_token='' @ to_str accessToken,
      rq_params = [], rq_body = Some message, rq_timeout = None\<rparr>"

text \<open>The body of \<open>sendCustomerServiceMessage\<close>, given what the recursive call does.\<close>

definition send_with :: "config \<Rightarrow> nat \<Rightarrow> jsval \<Rightarrow> bool \<Rightarrow> bool act \<Rightarrow> bool act" where
  "send_with cfg fuel message retryOnTokenError again =
     try_catch
       (await (getAccessToken cfg fuel) (\<lambda>accessToken.
        await (http (send_request accessToken message)) (\<lambda>response.
        await (lift_sum (get_prop (rs_data response) ''errcode'')) (\<lambda>errcode.
        if errcode = int_val 0 then Return True
        else if errcode = int_val 40001 \<and> retryOnTokenError
        then await (forceRefreshToken cfg fuel) (\<lambda>_. again)
        else Return False))))
       (\<lambda>error. Return False)"

definition sendCustomerServiceMessage :: "config \<Rightarrow> nat \<Rightarrow> jsval \<Rightarrow> bool \<Rightarrow> bool act" where
  "sendCustomerServiceMessage cfg fuel message retryOnTokenError =
     (let last_try = send_with cfg fuel message False (Return False)
      in if retryOnTokenError then send_with cfg fuel message True last_try else last_try)"

definition text_message :: "jsval \<Rightarrow> jsval \<Rightarrow> jsval" where
  "text_message openId content =
     obj [(''touser'', openId), (''msgtype'', str_val ''text''), (''text'', obj [(''content'', content)])]"

section \<open>Cutting a text\<close>

definition MAX_LENGTH :: nat where
  "MAX_LENGTH = 600"

text \<open>Where the next cut falls: the last line break, else the last blank, else the limit.\<close>

definition split_index :: "jsstr \<Rightarrow> nat" where
  "split_index remaining =
     (let nl = last_index_of remaining 10 MAX_LENGTH;
          sp = (if nl = -1 \<or> nl < int MAX_LENGTH div 2 then last_index_of remaining 32 MAX_LENGTH else nl)
      in if sp = -1 \<or> sp < int MAX_LENGTH div 2 then MAX_LENGTH else nat sp)"

lemma split_index_range: "300 \<le> split_index s \<and> split_index s \<le> 600"
  using last_index_of_range [of s 10 600] last_index_of_range [of s 32 600]
  by (auto simp: split_index_def MAX_LENGTH_def Let_def)

text \<open>The loop that builds \<open>chunks\<close>.\<close>

function split_chunks :: "jsstr \<Rightarrow> jsstr list" where
  "split_chunks remaining =
     (if remaining = [] then []
      else if length remaining \<le> MAX_LENGTH then [remaining]
      else substring remaining 0 (split_index remaining)
           # split_chunks (trim_start (substring_from remaining (split_index remaining))))"
  by pat_completeness auto
termination
proof (relation "measure length")
  fix s :: jsstr
  assume "s \<noteq> []"
  have "length (trim_start (substring_from s (split_index s))) \<le> length s - split_index s"
    using length_trim_start [of "substring_from s (split_index s)"] by (simp add: substring_from_def)
  also have "\<dots> < length s" using split_index_range [of s] \<open>s \<noteq> []\<close> by (simp add: diff_less)
  finally show "(trim_start (substring_from s (split_index s)), s) \<in> measure length" by simp
qed simp

declare split_chunks.simps [simp del]

section \<open>Sending a text\<close>

text \<open>\<open>(i + 1/parts) chunk\<close> for every chunk but the first.\<close>

definition numbered :: "nat \<Rightarrow> nat \<Rightarrow> jsstr \<Rightarrow> jsstr" where
  "numbered i parts chunk =
     (if i = 0 then chunk
      else js ''('' @ nat_digits (i + 1) @ js ''/'' @ nat_digits parts @ js '') '' @ chunk)"

fun send_chunks :: "config \<Rightarrow> nat \<Rightarrow> jsval \<Rightarrow> nat \<Rightarrow> nat \<Rightarrow> jsstr list \<Rightarrow> bool \<Rightarrow> bool act" where
  "send_chunks cfg fuel openId i parts [] success = Return success"
| "send_chunks cfg fuel openId i parts (c # cs) success =
     await (sendCustomerServiceMessage cfg fuel (text_message openId (StrV (numbered i parts c))) True) (\<lambda>result.
       let success' = (if \<not> result then False else success) in
       if i + 1 < parts
       then await (sleep 100) (\<lambda>_. send_chunks cfg fuel openId (i + 1) parts cs success')
       else send_chunks cfg fuel openId (i + 1) parts cs success')"

text \<open>\<open>content.length\<close>\<close>

definition content_length :: "jsval \<Rightarrow> jserr + jsval" where
  "content_length v =
     (case v of StrV s \<Rightarrow> Inr (int_val (int (length s))) | ArrV xs \<Rightarrow> Inr (int_val (int (length xs)))
      | _ \<Rightarrow> get_prop v ''length'')"

text \<open>
  \<open>sendTextMessage\<close>.  The content is declared a string, but the callback route passes what a request
  body holds.  A value without a length fails the test \<open>content.length <= MAX_LENGTH\<close> and the test of
  the loop, so nothing is cut and nothing is sent; one with a greater length has no \<open>substring\<close>.
\<close>

definition sendTextMessage :: "config \<Rightarrow> nat \<Rightarrow> jsval \<Rightarrow> jsval \<Rightarrow> bool act" where
  "sendTextMessage cfg fuel openId content =
     await (lift_sum (content_length content)) (\<lambda>len.
       if num_le (to_num len) (num_int (int MAX_LENGTH))
       then sendCustomerServiceMessage cfg fuel (text_message openId content) True
       else (case content of
               StrV s \<Rightarrow> (let chunks = split_chunks s
                          in send_chunks cfg fuel openId 0 (length chunks) chunks True)
             | _ \<Rightarrow> if num_less (num_int 0) (to_num len)
                   then Throw (ErrorObj TypeError (js ''remaining.substring is not a function'') None)
                   else Return True))"

section \<open>Chunks\<close>

lemma split_chunks_Nil [simp]: "split_chunks [] = []"
  by (subst split_chunks.simps) simp

lemma split_chunks_short: "s \<noteq> [] \<Longrightarrow> length s \<le> 600 \<Longrightarrow> split_chunks s = [s]"
  by (subst split_chunks.simps) (simp add: MAX_LENGTH_def)

lemma split_chunks_long:
  "600 < length s \<Longrightarrow> split_chunks s =
     take (split_index s) s # split_chunks (trim_start (drop (split_index s) s))"
  by (subst split_chunks.simps) (auto simp: MAX_LENGTH_def substring_def substring_from_def)

lemma split_chunks_induct [case_names Nil Short Long]:
  assumes "P []" and "\<And>s. s \<noteq> [] \<Longrightarrow> length s \<le> 600 \<Longrightarrow> P s"
    and "\<And>s. 600 < length s \<Longrightarrow> P (trim_start (drop (split_index s) s)) \<Longrightarrow> P s"
  shows "P s"
proof (induction s rule: length_induct)
  case (1 s)
  show ?case
  proof (cases "600 < length s")
    case True
    have "length (trim_start (drop (split_index s) s)) < length s"
      using length_trim_start [of "drop (split_index s) s"] split_index_range [of s] True
      unfolding length_drop by linarith
    with 1 assms(3) [OF True] show ?thesis by blast
  next
    case False
    with assms(1) assms(2) [of s] show ?thesis by (cases "s = []") auto
  qed
qed

lemma split_chunks_bounds: "c \<in> set (split_chunks s) \<Longrightarrow> c \<noteq> [] \<and> length c \<le> 600"
proof (induction s rule: split_chunks_induct)
  case (Long s)
  then show ?case using split_index_range [of s] by (auto simp: split_chunks_long)
qed (simp_all add: split_chunks_short)

text \<open>Only white space at the cuts is lost: the text is the chunks with blank gaps between them.\<close>

fun with_gaps :: "jsstr list \<Rightarrow> jsstr list \<Rightarrow> jsstr" where
  "with_gaps [] gs = []"
| "with_gaps [c] gs = c @ concat gs"
| "with_gaps (c # d # cs) (g # gs) = c @ g @ with_gaps (d # cs) gs"
| "with_gaps (c # d # cs) [] = c @ with_gaps (d # cs) []"

lemma with_gaps_Cons: "cs \<noteq> [] \<Longrightarrow> with_gaps (c # cs) (g # gs) = c @ g @ with_gaps cs gs"
  by (cases cs) simp_all

lemma split_chunks_gaps:
  "s \<noteq> [] \<Longrightarrow> \<exists>gs. length gs \<le> length (split_chunks s) \<and> list_all (list_all is_ws) gs \<and> s = with_gaps (split_chunks s) gs"
proof (induction s rule: split_chunks_induct)
  case (Short s)
  then show ?case by (intro exI [of _ "[]"]) (simp add: split_chunks_short)
next
  case (Long s)
  let ?r = "trim_start (drop (split_index s) s)"
  obtain g where g: "list_all is_ws g" "drop (split_index s) s = g @ ?r"
    using trim_start_suffix by blast
  have s: "s = take (split_index s) s @ g @ ?r"
    using g(2) append_take_drop_id by metis
  show ?case
  proof (cases "?r = []")
    case True
    with s g Long.hyps show ?thesis
      by (intro exI [of _ "[g]"]) (simp add: split_chunks_long)
  next
    case False
    then obtain gs where gs: "length gs \<le> length (split_chunks ?r)" "list_all (list_all is_ws) gs"
      "?r = with_gaps (split_chunks ?r) gs"
      using Long.IH by blast
    have "split_chunks ?r \<noteq> []" using gs(3) False by auto
    then have "with_gaps (split_chunks s) (g # gs) = take (split_index s) s @ g @ ?r"
      using gs(3) Long.hyps by (simp add: split_chunks_long with_gaps_Cons)
    with s g(1) gs(1,2) Long.hyps show ?thesis
      by (intro exI [of _ "g # gs"]) (simp add: split_chunks_long)
  qed
qed simp

text \<open>Every character that is not white space is in the chunks, in its order.\<close>

lemma split_chunks_content:
  "filter (\<lambda>c. \<not> is_ws c) (concat (split_chunks s)) = filter (\<lambda>c. \<not> is_ws c) s"
proof (induction s rule: split_chunks_induct)
  case (Long s)
  have "filter (\<lambda>c. \<not> is_ws c) (concat (split_chunks s)) =
      filter (\<lambda>c. \<not> is_ws c) (take (split_index s) s) @ filter (\<lambda>c. \<not> is_ws c) (drop (split_index s) s)"
    using Long by (simp add: split_chunks_long filter_non_ws_trim_start)
  also have "\<dots> = filter (\<lambda>c. \<not> is_ws c) s" by (metis append_take_drop_id filter_append)
  finally show ?case .
qed (simp_all add: split_chunks_short)

lemma split_chunks_number: "length (split_chunks s) \<le> length s div 300 + 1"
proof (induction s rule: split_chunks_induct)
  case (Long s)
  let ?r = "trim_start (drop (split_index s) s)"
  have "length ?r \<le> length s - 300"
    using length_trim_start [of "drop (split_index s) s"] split_index_range [of s]
    unfolding length_drop by linarith
  then have "length ?r div 300 \<le> (length s - 300) div 300" by (rule div_le_mono)
  also have "(length s - 300) div 300 + 1 = length s div 300" using Long.hyps by (simp add: le_div_geq)
  finally have "length ?r div 300 + 1 \<le> length s div 300" using Long.hyps by simp
  with Long show ?case by (simp add: split_chunks_long)
qed (simp_all add: split_chunks_short)

section \<open>Requests\<close>

text \<open>What sending a message may ask of the outside world: the token, and posts to the message API.\<close>

definition is_post :: "req \<Rightarrow> bool" where
  "is_post r \<longleftrightarrow> (case r of Http q \<Rightarrow> rq_method q = POST | _ \<Rightarrow> False)"

definition posts_message :: "(jsval \<Rightarrow> bool) \<Rightarrow> req \<Rightarrow> bool" where
  "posts_message M r \<longleftrightarrow> (\<exists>tok m. M m \<and> r = Http (send_request tok m))"

definition message_req :: "config \<Rightarrow> (jsval \<Rightarrow> bool) \<Rightarrow> req \<Rightarrow> bool" where
  "message_req cfg M r \<longleftrightarrow> token_req cfg r \<or> posts_message M r \<or> r = Sleep 100"

lemma is_post_simps [simp]:
  "\<not> is_post (RedisGet k)" "\<not> is_post (RedisSet k v m)" "\<not> is_post (RedisDel k)"
  "\<not> is_post DateNow" "\<not> is_post (Sleep ms)" "is_post (Http q) \<longleftrightarrow> rq_method q = POST"
  by (simp_all add: is_post_def)

lemma token_req_not_post: "token_req cfg r \<Longrightarrow> \<not> is_post r"
  by (cases r) (auto simp: token_request_def)

lemma posts_message_send [simp]: "M m \<Longrightarrow> posts_message M (Http (send_request tok m))"
  by (auto simp: posts_message_def)

lemma requests_token_message:
  "requests (message_req cfg M) (getAccessToken cfg n)"
  "requests (message_req cfg M) (forceRefreshToken cfg n)"
  by (rule safe_mono, rule token_requests, simp_all add: message_req_def)+

lemma requests_send_with:
  assumes "M m" and "requests (message_req cfg M) again"
  shows "requests (message_req cfg M) (send_with cfg n m retry again)"
  unfolding send_with_def using assms
  by (auto intro!: safe_intros requests_token_message simp: message_req_def [of _ _ "Http q" for q])

lemma requests_sendCustomerServiceMessage:
  "M m \<Longrightarrow> requests (message_req cfg M) (sendCustomerServiceMessage cfg n m retry)"
  unfolding sendCustomerServiceMessage_def Let_def
  by (auto intro!: requests_send_with)

text \<open>\<open>sendCustomerServiceMessage\<close> never rejects: its \<open>catch\<close> turns every exception into \<open>false\<close>.\<close>

lemma no_throw_send_with: "no_throw (send_with cfg n m retry again)"
  unfolding send_with_def
  by (rule safe_try_catch [where F = "\<lambda>_. True"]) (simp_all add: safe_any)

subsection \<open>At most two posts\<close>

lemma no_throw_sendCustomerServiceMessage: "no_throw (sendCustomerServiceMessage cfg n m retry)"
  unfolding sendCustomerServiceMessage_def Let_def by (auto intro!: no_throw_send_with)

text \<open>Nor does \<open>sendTextMessage\<close> on a string; its messages go to the given user.\<close>

lemma no_throw_send_chunks: "no_throw (send_chunks cfg n u i parts cs ok)"
  by (induction cs arbitrary: i ok)
    (auto simp: Let_def sleep_def intro!: safe_await [where R = "\<lambda>_. True", OF no_throw_sendCustomerServiceMessage])

lemma no_throw_sendTextMessage: "no_throw (sendTextMessage cfg n u (StrV s))"
  unfolding sendTextMessage_def content_length_def
  by (auto simp: Let_def intro!: no_throw_sendCustomerServiceMessage no_throw_send_chunks)

lemma requests_send_chunks:
  "(\<And>c. M (text_message u c)) \<Longrightarrow> requests (message_req cfg M) (send_chunks cfg n u i parts cs ok)"
  by (induction cs arbitrary: i ok)
    (auto simp: Let_def message_req_def [of _ _ "Sleep ms" for ms]
      intro!: requests_await requests_sendCustomerServiceMessage)

lemma requests_sendTextMessage:
  "(\<And>c. M (text_message u c)) \<Longrightarrow> requests (message_req cfg M) (sendTextMessage cfg n u v)"
  unfolding sendTextMessage_def
  by (auto simp: Let_def split: jsval.split
      intro!: safe_intros requests_sendCustomerServiceMessage requests_send_chunks)

text \<open>The posts of a run, each with its answer.\<close>

definition posts_of :: "(req \<times> resp) list \<Rightarrow> (req \<times> resp) list" where
  "posts_of tr = filter (\<lambda>(r, x). is_post r) tr"

lemma posts_of_simps [simp]: "posts_of [] = []" "posts_of (tr @ tr') = posts_of tr @ posts_of tr'"
  "posts_of ((Http (send_request tok m), x) # tr) = (Http (send_request tok m), x) # posts_of tr"
  by (simp_all add: posts_of_def send_request_def)

lemma posts_of_none: "requests (\<lambda>r. \<not> is_post r) m \<Longrightarrow> posts_of (transcript sv m w) = []"
  unfolding posts_of_def filter_empty_conv using transcript_safe by fastforce

lemma posts_of_token [simp]:
  "posts_of (transcript sv (getAccessToken cfg n) w) = []" "posts_of (transcript sv (forceRefreshToken cfg n) w) = []"
  by (rule posts_of_none, rule safe_mono, rule token_requests, simp_all add: token_req_not_post)+

text \<open>An answer that reports an invalid token.\<close>

definition token_error :: "resp \<Rightarrow> bool" where
  "token_error x \<longleftrightarrow> (\<exists>s. x = GotHttp s \<and> get_prop (rs_data s) ''errcode'' = Inr (int_val 40001))"

lemma posts_of_send_with:
  obtains (none) "posts_of (transcript sv (send_with cfg n m retry again) w) = []"
  | (one) tok x where "posts_of (transcript sv (send_with cfg n m retry again) w) = [(Http (send_request tok m), x)]"
  | (more) tok x w' where "retry" "token_error x"
      "posts_of (transcript sv (send_with cfg n m retry again) w) =
         (Http (send_request tok m), x) # posts_of (transcript sv again w')"
proof (cases "run sv (getAccessToken cfg n) w")
  case (Pair o1 w1)
  show thesis
  proof (cases o1)
    case (Returned tok)
    let ?q = "send_request tok m"
    let ?x = "fst (sv w1 (Http ?q))" and ?w2 = "snd (sv w1 (Http ?q))"
    have http: "transcript sv (http ?q) w1 = [(Http ?q, ?x)]" by (simp add: http_def split: resp.split)
    show thesis
    proof (cases "\<exists>s. ?x = GotHttp s")
      case True
      then obtain s where s: "?x = GotHttp s" by blast
      then have run: "run sv (http ?q) w1 = (Returned s, ?w2)" by (simp add: http_def)
      show thesis
      proof (cases "retry \<and> get_prop (rs_data s) ''errcode'' = Inr (int_val 40001)")
        case True
        obtain o3 w3 where f: "run sv (forceRefreshToken cfg n) ?w2 = (o3, w3)" by fastforce
        show thesis
        proof (cases o3)
          case (Returned t)
          show thesis
            by (rule more [of ?x tok w3])
              (use True s Pair \<open>o1 = Returned tok\<close> f Returned run http in
                \<open>simp_all add: token_error_def send_with_def act_simps split: outcome.split prod.split\<close>)
        qed (rule one [of tok ?x]; use True s Pair \<open>o1 = Returned tok\<close> f run http in \<open>simp add: send_with_def act_simps\<close>)+
      next
        case False
        show thesis
          by (rule one [of tok ?x]; cases "get_prop (rs_data s) ''errcode''")
            (use False s Pair \<open>o1 = Returned tok\<close> run http in \<open>auto simp: send_with_def act_simps\<close>)
      qed
    next
      case False
      then obtain e where "run sv (http ?q) w1 = (Threw e, ?w2)" by (cases ?x) (auto simp: http_def)
      then show thesis
        by (intro one [of tok ?x]) (use Pair Returned http in \<open>simp add: send_with_def act_simps\<close>)
    qed
  qed (rule none; use Pair in \<open>simp add: send_with_def act_simps\<close>)+
qed

lemma posts_of_send:
  assumes "ps = posts_of (transcript sv (sendCustomerServiceMessage cfg n m retry) w)"
  shows "length ps \<le> (if retry then 2 else 1)" and "list_all (\<lambda>(r, x). \<exists>tok. r = Http (send_request tok m)) ps"
    and "length ps = 2 \<Longrightarrow> token_error (snd (hd ps))"
proof -
  have last: "length (posts_of (transcript sv (send_with cfg n m False (Return False)) w)) \<le> 1
      \<and> list_all (\<lambda>(r, x). \<exists>tok. r = Http (send_request tok m)) (posts_of (transcript sv (send_with cfg n m False (Return False)) w))" for w
    by (rule posts_of_send_with [of sv cfg n m False "Return False" w]) auto
  have "length ps \<le> (if retry then 2 else 1) \<and> list_all (\<lambda>(r, x). \<exists>tok. r = Http (send_request tok m)) ps
      \<and> (length ps = 2 \<longrightarrow> token_error (snd (hd ps)))"
  proof (cases retry)
    case True
    show ?thesis
      by (rule posts_of_send_with [of sv cfg n m True "send_with cfg n m False (Return False)" w])
        (use last assms True in \<open>auto simp: sendCustomerServiceMessage_def Let_def\<close>)
  next
    case False
    with last [of w] assms show ?thesis by (simp add: sendCustomerServiceMessage_def Let_def)
  qed
  then show "length ps \<le> (if retry then 2 else 1)" "list_all (\<lambda>(r, x). \<exists>tok. r = Http (send_request tok m)) ps"
    "length ps = 2 \<Longrightarrow> token_error (snd (hd ps))" by blast+
qed

section \<open>What \<open>true\<close> means\<close>

text \<open>The bodies of the posts that were answered with \<open>errcode\<close> 0, in their order.\<close>

definition accepted_body :: "req \<times> resp \<Rightarrow> jsval option" where
  "accepted_body rx =
     (case rx of (Http q, GotHttp s) \<Rightarrow>
        if rq_method q = POST \<and> get_prop (rs_data s) ''errcode'' = Inr (int_val 0) then rq_body q else None
      | _ \<Rightarrow> None)"

definition accepted :: "(req \<times> resp) list \<Rightarrow> jsval list" where
  "accepted tr = List.map_filter accepted_body tr"

lemma accepted_simps [simp]:
  "accepted [] = []"
  "accepted (a @ b) = accepted a @ accepted b"
  "accepted (x # tr) = (case accepted_body x of None \<Rightarrow> [] | Some m \<Rightarrow> [m]) @ accepted tr"
  by (simp_all add: accepted_def List.map_filter_def split: option.split)

lemma accepted_no_post: "requests (\<lambda>r. \<not> is_post r) m \<Longrightarrow> accepted (transcript sv m w) = []"
proof -
  assume safe: "requests (\<lambda>r. \<not> is_post r) m"
  have "accepted_body rx = None" if "rx \<in> set (transcript sv m w)" for rx
  proof -
    have "\<not> is_post (fst rx)"
      using transcript_safe [OF safe, of "fst rx" "snd rx" sv w] that by simp
    then show ?thesis
      by (cases rx) (auto simp: accepted_body_def split: req.splits resp.splits)
  qed
  then show ?thesis by (simp add: accepted_def List.map_filter_def)
qed

lemma accepted_token [simp]:
  "accepted (transcript sv (getAccessToken cfg n) w) = []"
  "accepted (transcript sv (forceRefreshToken cfg n) w) = []"
  by (rule accepted_no_post, rule safe_mono, rule token_requests, auto dest: token_req_not_post)+

lemma accepted_sleep [simp]: "accepted (transcript sv (sleep ms) w) = []"
  by (rule accepted_no_post) simp

text \<open>A send counts as successful exactly when one of its posts was accepted, and never sends twice.\<close>

lemma send_with_accepted:
  assumes again: "\<And>w b w'. run sv again w = (Returned b, w') \<Longrightarrow>
      accepted (transcript sv again w) = (if b then [m] else [])"
    and no_throw: "no_throw again"
    and run: "run sv (send_with cfg n m retry again) w = (Returned b, w')"
  shows "accepted (transcript sv (send_with cfg n m retry again) w) = (if b then [m] else [])"
proof (cases "run sv (getAccessToken cfg n) w")
  case (Pair o1 w1)
  show ?thesis
  proof (cases o1)
    case (Returned tok)
    note tok = Pair [unfolded this]
    let ?q = "send_request tok m"
    show ?thesis
    proof (cases "fst (sv w1 (Http ?q))")
      case (GotHttp s)
      let ?w2 = "snd (sv w1 (Http ?q))"
      have q: "rq_method ?q = POST" "rq_body ?q = Some m" by (simp_all add: send_request_def)
      show ?thesis
      proof (cases "get_prop (rs_data s) ''errcode''")
        case (Inr e)
        show ?thesis
        proof (cases "e = int_val 40001 \<and> retry")
          case True
          show ?thesis
          proof (cases "run sv (forceRefreshToken cfg n) ?w2")
            case (Pair o2 w3)
            show ?thesis
            proof (cases o2)
              case (Returned t2)
              obtain o3 w4 where o3: "run sv again w3 = (o3, w4)" by fastforce
              have "\<not> (\<exists>e. o3 = Threw e)"
                using run_safe [OF no_throw, of sv w3] o3 by auto
              with run tok GotHttp Inr True Pair Returned o3 again [of w3] q show ?thesis
                by (cases o3) (auto simp: send_with_def http_def run_await run_try_catch
                    transcript_await transcript_try_catch accepted_body_def)
            qed (use run tok GotHttp Inr True Pair q in \<open>auto simp: send_with_def http_def run_await
                run_try_catch transcript_await transcript_try_catch accepted_body_def\<close>)
          qed
        qed (use run tok GotHttp Inr q in \<open>auto simp: send_with_def http_def run_await run_try_catch
              transcript_await transcript_try_catch accepted_body_def split: if_splits\<close>)
      qed (use run tok GotHttp q in \<open>auto simp: send_with_def http_def run_await run_try_catch
            transcript_await transcript_try_catch accepted_body_def\<close>)
    qed (use run tok in \<open>auto simp: send_with_def http_def run_await run_try_catch
          transcript_await transcript_try_catch accepted_body_def\<close>)
  qed (use run Pair in \<open>auto simp: send_with_def run_await run_try_catch
        transcript_await transcript_try_catch\<close>)
qed

lemma sendCustomerServiceMessage_accepted:
  assumes "run sv (sendCustomerServiceMessage cfg n m retry) w = (Returned b, w')"
  shows "accepted (transcript sv (sendCustomerServiceMessage cfg n m retry) w) = (if b then [m] else [])"
proof -
  have last: "accepted (transcript sv (send_with cfg n m False (Return False)) w) = (if b then [m] else [])"
    if "run sv (send_with cfg n m False (Return False)) w = (Returned b, w')" for w b w'
    by (rule send_with_accepted [OF _ _ that]) auto
  show ?thesis
  proof (cases retry)
    case True
    have "run sv (send_with cfg n m True (send_with cfg n m False (Return False))) w = (Returned b, w')"
      using assms True by (simp add: sendCustomerServiceMessage_def)
    from send_with_accepted [OF last no_throw_send_with this] True show ?thesis
      by (simp add: sendCustomerServiceMessage_def)
  next
    case False
    with assms last [of w b w'] show ?thesis by (simp add: sendCustomerServiceMessage_def)
  qed
qed

text \<open>The messages of a cut text, numbered from \<open>i\<close>.\<close>

fun number_from :: "nat \<Rightarrow> nat \<Rightarrow> jsstr list \<Rightarrow> jsstr list" where
  "number_from i parts [] = []"
| "number_from i parts (c # cs) = numbered i parts c # number_from (Suc i) parts cs"

definition message_texts :: "jsstr \<Rightarrow> jsstr list" where
  "message_texts s = (if length s \<le> 600 then [s] else number_from 0 (length (split_chunks s)) (split_chunks s))"

lemma send_chunks_accepted:
  assumes "run sv (send_chunks cfg n u i parts cs ok) w = (Returned b, w')"
  shows "(b \<longleftrightarrow> ok \<and> accepted (transcript sv (send_chunks cfg n u i parts cs ok) w) =
      map (\<lambda>t. text_message u (StrV t)) (number_from i parts cs)) \<and>
    subseq (accepted (transcript sv (send_chunks cfg n u i parts cs ok) w))
      (map (\<lambda>t. text_message u (StrV t)) (number_from i parts cs))"
  using assms
proof (induction cs arbitrary: i ok w)
  case (Cons c cs)
  let ?m = "text_message u (StrV (numbered i parts c))"
  obtain r w1 where send: "run sv (sendCustomerServiceMessage cfg n ?m True) w = (Returned r, w1)"
    using Cons.prems by (auto simp: run_await split: outcome.splits prod.splits)
  let ?ok = "if \<not> r then False else ok"
  note acc = sendCustomerServiceMessage_accepted [OF send]
  obtain w2 where rest: "run sv (send_chunks cfg n u (Suc i) parts cs ?ok) w2 = (Returned b, w')"
    and tr: "accepted (transcript sv (send_chunks cfg n u i parts (c # cs) ok) w) =
      (if r then [?m] else []) @ accepted (transcript sv (send_chunks cfg n u (Suc i) parts cs ?ok) w2)"
  proof (cases "i + 1 < parts")
    case True
    then obtain x w2 where "run sv (sleep 100) w1 = (Returned x, w2)"
      "run sv (send_chunks cfg n u (Suc i) parts cs ?ok) w2 = (Returned b, w')"
      using Cons.prems send by (auto simp: run_await Let_def split: outcome.splits prod.splits)
    with True send acc that show thesis by (auto simp: transcript_await Let_def)
  next
    case False
    with Cons.prems send acc that show thesis by (auto simp: run_await transcript_await Let_def)
  qed
  let ?acc = "accepted (transcript sv (send_chunks cfg n u (Suc i) parts cs ?ok) w2)"
    and ?all = "map (\<lambda>t. text_message u (StrV t)) (number_from (Suc i) parts cs)"
  have "?acc \<noteq> ?m # ?all" using list_emb_length [OF conjunct2 [OF Cons.IH [OF rest]]] by auto
  with Cons.IH [OF rest] show ?case unfolding tr by (cases r) auto
qed auto

lemma sendTextMessage_accepted:
  assumes "run sv (sendTextMessage cfg n u (StrV s)) w = (Returned b, w')"
  shows "(b \<longleftrightarrow> accepted (transcript sv (sendTextMessage cfg n u (StrV s)) w) =
      map (\<lambda>t. text_message u (StrV t)) (message_texts s)) \<and>
    subseq (accepted (transcript sv (sendTextMessage cfg n u (StrV s)) w))
      (map (\<lambda>t. text_message u (StrV t)) (message_texts s))"
proof (cases "length s \<le> 600")
  case True
  then have "sendTextMessage cfg n u (StrV s) = sendCustomerServiceMessage cfg n (text_message u (StrV s)) True"
    by (simp add: sendTextMessage_def content_length_def MAX_LENGTH_def)
  with assms sendCustomerServiceMessage_accepted [of sv cfg n _ True w b w'] True show ?thesis
    by (auto simp: message_texts_def)
next
  case False
  then have "sendTextMessage cfg n u (StrV s) =
      send_chunks cfg n u 0 (length (split_chunks s)) (split_chunks s) True"
    by (simp add: sendTextMessage_def content_length_def MAX_LENGTH_def Let_def)
  with assms send_chunks_accepted [of sv cfg n u 0 "length (split_chunks s)" "split_chunks s" True w b w'] False
  show ?thesis by (simp add: message_texts_def)
qed

subsection \<open>The length of the messages\<close>

lemma length_numbered:
  "length (numbered i parts c) = length c +
     (if i = 0 then 0 else 4 + length (nat_digits (i + 1)) + length (nat_digits parts))"
  by (simp add: numbered_def)

lemma set_number_from: "t \<in> set (number_from i parts cs) \<Longrightarrow>
    \<exists>j < length cs. t = numbered (i + j) parts (cs ! j)"
proof (induction cs arbitrary: i)
  case (Cons c cs)
  then consider "t = numbered i parts c" | "t \<in> set (number_from (Suc i) parts cs)" by auto
  then show ?case
  proof cases
    case 2
    with Cons.IH obtain j where "j < length cs" "t = numbered (Suc i + j) parts (cs ! j)" by blast
    then show ?thesis by (intro exI [of _ "Suc j"]) simp
  qed auto
qed simp

lemma length_nat_digits_mono: "a \<le> b \<Longrightarrow> length (nat_digits a) \<le> length (nat_digits b)"
proof (induction b arbitrary: a rule: nat_digits.induct)
  case (1 b)
  show ?case
  proof (cases "b < 10 \<or> a < 10")
    case True
    have "Suc 0 \<le> length (nat_digits b)" by (cases "nat_digits b") auto
    with True 1 show ?thesis by (auto simp: nat_digits.simps [of a])
  next
    case False
    have "a div 10 \<le> b div 10" using 1 by (rule_tac div_le_mono)
    with False 1 show ?thesis by (simp add: nat_digits.simps [of a] nat_digits.simps [of b])
  qed
qed

lemma message_texts_length:
  assumes "t \<in> set (message_texts s)"
  shows "length t \<le> 600 + 4 + 2 * length (nat_digits (length (split_chunks s)))"
proof (cases "length s \<le> 600")
  case False
  with assms obtain j where j: "j < length (split_chunks s)"
    "t = numbered j (length (split_chunks s)) (split_chunks s ! j)"
    by (auto simp: message_texts_def dest!: set_number_from)
  have "length (split_chunks s ! j) \<le> 600"
    using split_chunks_bounds [OF nth_mem [OF j(1)]] by simp
  moreover have "length (nat_digits (j + 1)) \<le> length (nat_digits (length (split_chunks s)))"
    using j(1) by (intro length_nat_digits_mono) simp
  ultimately show ?thesis using j(2) by (cases "j = 0") (simp_all add: length_numbered)
qed (use assms in \<open>simp add: message_texts_def\<close>)

text \<open>The prefix is added after the cut, so it can carry a message over the limit.\<close>

lemma last_index_of_none: "c \<notin> set s \<Longrightarrow> last_index_of s c n = -1"
proof -
  assume "c \<notin> set s"
  then have "filter (\<lambda>i. s ! i = c) [0..<min (length s) (Suc n)] = []"
    by (auto simp: filter_empty_conv)
  then show ?thesis by (simp add: last_index_of_def)
qed

lemma split_index_solid: "10 \<notin> set s \<Longrightarrow> 32 \<notin> set s \<Longrightarrow> split_index s = 600"
  by (simp add: split_index_def last_index_of_none MAX_LENGTH_def)

lemma split_chunks_solid:
  assumes "\<not> is_ws c" and "c \<noteq> 10" and "c \<noteq> 32" and "k \<le> 600" and "0 < k"
  shows "split_chunks (replicate (600 + k) c) = [replicate 600 c, replicate k c]"
proof -
  have "split_index (replicate (600 + k) c) = 600"
    using assms by (intro split_index_solid) simp_all
  moreover have "trim_start (replicate k c) = replicate k c"
    using assms by (intro trim_start_id) (cases k, simp_all)
  ultimately show ?thesis
    using assms by (subst split_chunks_long) (simp_all add: split_chunks_short)
qed

end
