(* ===== verification/WechatRoutes.thy ===== *)
theory WechatRoutes
  imports Crypto XmlParser OrchestratorClient Forwarder WechatMessage
begin

text \<open>
  \<open>routes/wechat.ts\<close>: the verification endpoint, the message endpoint with its commands and its routing
  by the status of the binding, the handlers, and the two asynchronous procedures that provision and
  restart a VM.

  A query parameter is a string or absent, as the route declares it; the body is whatever Fastify
  parsed.  A handler returns the reply it sends; an exception that leaves it is answered by the error
  handler of \<open>App\<close>.  The closure \<open>sendReply\<close> is passed to the handlers as an argument, as in the
  source.  The texts are the literals of the source, given by their UTF-16 code units.
\<close>

section \<open>Queries and replies\<close>

record wechat_query =
  q_signature :: "jsstr option"
  q_timestamp :: "jsstr option"
  q_nonce :: "jsstr option"
  q_echostr :: "jsstr option"
  q_encrypt_type :: "jsstr option"
  q_msg_signature :: "jsstr option"

record reply =
  rp_code :: nat
  rp_type :: "jsstr option"
  rp_body :: jsval

definition text_of :: "jsstr option \<Rightarrow> jsstr" where
  "text_of p = (case p of None \<Rightarrow> [] | Some s \<Rightarrow> s)"

text \<open>A parameter, or an optional setting, that is truthy: present and not empty.\<close>

definition given :: "jsstr option \<Rightarrow> bool" where
  "given p \<longleftrightarrow> text_of p \<noteq> []"

definition plain_reply :: "nat \<Rightarrow> string \<Rightarrow> reply" where
  "plain_reply code body = \<lparr>rp_code = code, rp_type = None, rp_body = str_val body\<rparr>"

definition typed_reply :: "string \<Rightarrow> jsstr \<Rightarrow> reply" where
  "typed_reply type body = \<lparr>rp_code = 200, rp_type = Some (js type), rp_body = StrV body\<rparr>"

section \<open>GET /wechat\<close>

definition getWechat :: "config \<Rightarrow> wechat_query \<Rightarrow> reply" where
  "getWechat cfg q =
     (if \<not> given (q_signature q) \<or> \<not> given (q_timestamp q) \<or> \<not> given (q_nonce q)
      then plain_reply 400 ''Missing parameters''
      else let isValid = validateSignature (wc_token (cf_wechat cfg)) (text_of (q_signature q))
                           (text_of (q_timestamp q)) (text_of (q_nonce q))
           in if isValid \<and> given (q_echostr q) then typed_reply ''text/plain'' (text_of (q_echostr q))
              else plain_reply 403 ''Invalid signature'')"

section \<open>Texts\<close>

definition port_str :: "int option \<Rightarrow> jsstr" where
  "port_str p = (case p of None \<Rightarrow> js ''NaN'' | Some n \<Rightarrow> int_str n)"

text \<open>\<open>ssh <openId>@<sshHost> -p <sshPort>\<close>\<close>

definition ssh_command :: "config \<Rightarrow> jsval \<Rightarrow> jsstr" where
  "ssh_command cfg openId = js ''ssh '' @ to_str openId @ js ''@'' @ br_sshHost (cf_bridge cfg) @ js '' -p ''
     @ port_str (br_sshPort (cf_bridge cfg))"

definition HELP_TEXT :: "config \<Rightarrow> jsval \<Rightarrow> jsstr" where
  "HELP_TEXT cfg openId = units [55358, 56598] @ js '' Clawdbot ''
     @ units [20113, 21161, 25163, 10, 10, 21487, 29992, 25351, 20196, 65306, 10, 8226]
     @ js '' status - '' @ units [26597, 30475] @ js '' VM '' @ units [29366, 24577, 10, 8226]
     @ js '' restart - '' @ units [37325, 21551] @ js '' VM'' @ units [10, 8226] @ js '' stop - ''
     @ units [20572, 27490] @ js '' VM'' @ units [10, 8226] @ js '' destroy - '' @ units [38144, 27585]
     @ js '' VM '' @ units [21450, 25968, 25454, 10, 8226] @ js '' passwd <''
     @ units [26032, 23494, 30721] @ js ''> - '' @ units [20462, 25913] @ js '' SSH ''
     @ units [23494, 30721, 10, 8226] @ js '' help - ''
     @ units [26174, 31034, 24110, 21161, 10, 10, 55357, 56741] @ js '' SSH ''
     @ units [36830, 25509, 65306, 10]
     @ ssh_command cfg openId @ units [10, 10, 30452, 25509, 21457, 36865, 28040, 24687, 21363, 21487, 19982] @ js '' AI ''
     @ units [23545, 35805, 12290]"

definition PROVISIONING_TEXT :: jsstr where
  "PROVISIONING_TEXT = units [9203] @ js '' '' @ units [20320, 30340] @ js '' Clawdbot ''
     @ units [27491, 22312, 21551, 21160, 20013, 65292, 35831, 31245, 31561, 20960, 31186, 21518, 20877, 21457, 36865, 28040, 24687]
     @ js ''...''"

definition UNKNOWN_ERROR :: jsstr where
  "UNKNOWN_ERROR = units [26410, 30693, 38169, 35823]"

definition ERROR_TEXT :: "jsval \<Rightarrow> jsstr" where
  "ERROR_TEXT em = units [10060] @ js '' VM '' @ units [29366, 24577, 24322, 24120] @ js '': '' @ to_str (js_or em (StrV UNKNOWN_ERROR))
     @ units [10, 10, 21457, 36865] @ js '' restart '' @ units [23581, 35797, 37325, 21551, 65292, 25110]
     @ js '' destroy '' @ units [21518, 37325, 26032, 20851, 27880, 12290]"

definition PROCESSING_TEXT :: jsstr where
  "PROCESSING_TEXT = units [9203] @ js '' '' @ units [27491, 22312, 22788, 29702, 20013, 65292, 35831, 31245, 20505]
     @ js ''...''"

definition UNKNOWN_STATUS_TEXT :: jsstr where
  "UNKNOWN_STATUS_TEXT = units [9888, 65039] @ js '' '' @ units [26410, 30693, 29366, 24577, 65292, 35831, 21457, 36865]
     @ js '' help '' @ units [26597, 30475, 21487, 29992, 25351, 20196, 12290]"

definition WELCOME_TEXT :: jsstr where
  "WELCOME_TEXT = units [55357, 56395] @ js '' '' @ units [27426, 36814, 20351, 29992] @ js '' Clawdbot ''
     @ units [20113, 26234, 33021, 20307, 65281, 10, 10, 55357, 56960] @ js '' ''
     @ units [27491, 22312, 20026, 20320, 20998, 37197, 19987, 23646] @ js '' AI ''
     @ units [29615, 22659, 65292, 36890, 24120, 38656, 35201] @ js '' 10-30 '' @ units [31186]
     @ js ''...''
     @ units [10, 10, 21551, 21160, 23436, 25104, 21518, 65292, 20320, 21487, 20197, 30452, 25509, 21457, 36865, 28040, 24687, 19982]
     @ js '' AI '' @ units [23545, 35805, 12290, 10, 10, 21457, 36865] @ js '' help ''
     @ units [26597, 30475, 25152, 26377, 21487, 29992, 25351, 20196, 12290]"

definition READY_TEXT :: "config \<Rightarrow> jsval \<Rightarrow> jsstr" where
  "READY_TEXT cfg openId = units [9989] @ js '' '' @ units [20320, 30340] @ js '' Clawdbot ''
     @ units [24050, 23601, 32490, 65281, 10, 10, 55357, 56741] @ js '' SSH ''
     @ units [36830, 25509, 65306, 10]
     @ ssh_command cfg openId @ units [10, 23494, 30721] @ js '': clawdbot''
     @ units [10, 10, 29616, 22312, 21487, 20197, 30452, 25509, 21457, 36865, 28040, 24687, 19982]
     @ js '' AI '' @ units [23545, 35805, 20102, 12290]"

definition PROVISION_FAILED_TEXT :: jsstr where
  "PROVISION_FAILED_TEXT = units [10060] @ js '' OpenClaw ''
     @ units [21551, 21160, 22833, 36133, 65292, 35831, 31245, 21518, 37325, 35797, 12290, 10, 10, 21457, 36865]
     @ js '' restart '' @ units [23581, 35797, 37325, 26032, 21551, 21160, 12290]"

definition NO_VM_TEXT :: jsstr where
  "NO_VM_TEXT = units [55357, 56557] @ js '' '' @ units [20320, 36824, 27809, 26377, 36816, 34892, 20013, 30340]
     @ js '' Clawdbot ''
     @ units [23454, 20363, 12290, 10, 10, 21457, 36865, 20219, 24847, 28040, 24687, 21363, 21487, 33258, 21160, 21019, 24314, 12290]"

definition RESTARTED_TEXT :: jsstr where
  "RESTARTED_TEXT = units [9989] @ js '' Clawdbot '' @ units [24050, 37325, 26032, 21551, 21160, 65281]"

definition RESTARTING_TEXT :: jsstr where
  "RESTARTING_TEXT = units [55357, 56580] @ js '' '' @ units [27491, 22312, 37325, 21551] @ js '' Clawdbot''
     @ units [65292, 35831, 31245, 20505] @ js ''...''"

definition STOPPED_TEXT :: jsstr where
  "STOPPED_TEXT = units [55357, 56628] @ js '' Clawdbot '' @ units [24050, 20572, 27490, 12290, 10, 10, 21457, 36865]
     @ js '' restart ''
     @ units [21487, 37325, 26032, 21551, 21160, 65292, 25968, 25454, 24050, 20445, 30041, 12290]"

definition STOP_FAILED_TEXT :: jsstr where
  "STOP_FAILED_TEXT = units [10060] @ js '' ''
     @ units [20572, 27490, 22833, 36133, 65292, 35831, 31245, 21518, 37325, 35797, 12290]"

definition DESTROYED_TEXT :: jsstr where
  "DESTROYED_TEXT = units [55357, 56785, 65039] @ js '' Clawdbot ''
     @ units [24050, 38144, 27585, 65292, 25152, 26377, 25968, 25454, 24050, 21024, 38500, 12290, 10, 10, 21457, 36865, 20219, 24847, 28040, 24687, 21487, 37325, 26032, 21019, 24314, 12290]"

definition DESTROY_FAILED_TEXT :: jsstr where
  "DESTROY_FAILED_TEXT = units [10060] @ js '' ''
     @ units [38144, 27585, 22833, 36133, 65292, 35831, 31245, 21518, 37325, 35797, 12290]"

definition PASSWD_SHORT_TEXT :: jsstr where
  "PASSWD_SHORT_TEXT = units [10060] @ js '' '' @ units [23494, 30721, 38271, 24230, 33267, 23569] @ js '' 8 ''
     @ units [20010, 23383, 31526, 12290, 10, 10, 29992, 27861] @ js '': passwd <''
     @ units [26032, 23494, 30721] @ js ''>''"

definition PASSWD_OK_TEXT :: jsstr where
  "PASSWD_OK_TEXT = units [9989] @ js '' SSH ''
     @ units [23494, 30721, 24050, 20462, 25913, 25104, 21151, 65281, 10, 10, 26032, 23494, 30721, 23558, 22312, 19979, 27425]
     @ js '' SSH '' @ units [36830, 25509, 26102, 29983, 25928, 12290]"

definition PASSWD_FAILED_TEXT :: jsstr where
  "PASSWD_FAILED_TEXT = units [10060] @ js '' ''
     @ units [23494, 30721, 20462, 25913, 22833, 36133, 65292, 35831, 30830, 35748] @ js '' VM ''
     @ units [22788, 20110, 36816, 34892, 29366, 24577, 21518, 37325, 35797, 12290]"

text \<open>\<open>statusEmoji[binding.status] || '?'\<close> (a coloured question mark in the source); a status that
  names a member of \<open>Object.prototype\<close>, which the lookup would find, is left out.\<close>

definition status_emoji :: "jsval \<Rightarrow> jsstr" where
  "status_emoji status =
     (let s = to_str status
      in if s = js ''provisioning'' then units [55357, 56580]
         else if s = js ''running'' then units [55357, 57314]
         else if s = js ''stopped'' then units [55357, 56628]
         else if s = js ''error'' then units [10060]
         else units [10067])"

definition STATUS_TEXT :: "config \<Rightarrow> jsval \<Rightarrow> jsval \<Rightarrow> jsval \<Rightarrow> jsstr \<Rightarrow> jsstr" where
  "STATUS_TEXT cfg openId status vm_ip createdDate =
     status_emoji status @ js '' VM '' @ units [29366, 24577] @ js '': '' @ to_str status @ units [10]
     @ units [55357, 56741] @ js '' IP: '' @ to_str (js_or vm_ip (str_val ''N/A'')) @ units [10]
     @ units [55357, 56588] @ js '' SSH: '' @ ssh_command cfg openId @ units [10]
     @ units [55357, 56517] @ js '' '' @ units [21019, 24314, 26102, 38388] @ js '': '' @ createdDate"

section \<open>Sending a reply\<close>

definition sendReply :: "config \<Rightarrow> bool \<Rightarrow> jsstr \<Rightarrow> reply act" where
  "sendReply cfg isEncrypted plainXml =
     (let wc = cf_wechat cfg
      in if isEncrypted \<and> given (wc_encodingAESKey wc)
         then await (encryptMessage plainXml (text_of (wc_encodingAESKey wc)) (wc_appId wc)) (\<lambda>encrypted.
              await now_seconds (\<lambda>t.
              await (random_int 1000000000) (\<lambda>r.
              let replyTimestamp = int_str t; replyNonce = int_str r;
                  replySignature = generateMsgSignature (wc_token wc) replyTimestamp replyNonce (StrV encrypted)
              in Return (typed_reply ''text/xml''
                   (buildEncryptedReply encrypted replySignature replyTimestamp replyNonce)))))
         else Return (typed_reply ''text/xml'' plainXml))"

text \<open>\<open>sendReply(buildTextReply(openId, toUser, content))\<close>\<close>

definition say :: "library \<Rightarrow> (jsstr \<Rightarrow> reply act) \<Rightarrow> jsval \<Rightarrow> jsval \<Rightarrow> jsstr \<Rightarrow> reply act" where
  "say lib send openId toUser content = await (buildTextReply lib openId toUser content) send"

section \<open>Provisioning and restarting in the background\<close>

text \<open>The binding written once the orchestrator has answered with the VM.\<close>

definition vm_binding_of :: "jsval \<Rightarrow> jsval \<Rightarrow> vm_status \<Rightarrow> int \<Rightarrow> int \<Rightarrow> vm_binding" where
  "vm_binding_of ip url status created active =
     \<lparr>vmIp = ip, webhookUrl = url, vb_status = status, createdAt = created, lastActiveAt = active,
      errorMessage = None, ssh_password = None\<rparr>"

definition error_fields :: "jserr \<Rightarrow> (string \<times> jsval) list" where
  "error_fields e = [(''errorMessage'', StrV (err_message e))]"

definition provision_steps :: "config \<Rightarrow> nat \<Rightarrow> jsval \<Rightarrow> unit act" where
  "provision_steps cfg fuel openId =
     await (createVM cfg openId) (\<lambda>vmInfo.
     await (lift_sum (get_prop vmInfo ''vm_ip'')) (\<lambda>ip.
     await (lift_sum (get_prop vmInfo ''webhook_url'')) (\<lambda>url.
     await (lift_sum (get_prop vmInfo ''status'')) (\<lambda>st.
     await date_now (\<lambda>created.
     await date_now (\<lambda>active.
     await (setVMBinding openId (binding_val
              (vm_binding_of ip url (if st = str_val ''running'' then Running else Provisioning) created active))) (\<lambda>_.
     await (sendTextMessage cfg fuel openId (StrV (READY_TEXT cfg openId))) (\<lambda>_.
     Return ()))))))))"

definition provisionVMAsync :: "config \<Rightarrow> nat \<Rightarrow> jsval \<Rightarrow> unit act" where
  "provisionVMAsync cfg fuel openId =
     try_catch (provision_steps cfg fuel openId)
       (\<lambda>error. await (updateVMBindingStatus openId ErrorStatus (Some (error_fields error))) (\<lambda>_.
          try_catch
            (await (sendTextMessage cfg fuel openId (StrV PROVISION_FAILED_TEXT)) (\<lambda>_. Return ()))
            (\<lambda>_. Return ())))"

definition restart_steps :: "config \<Rightarrow> nat \<Rightarrow> jsval \<Rightarrow> unit act" where
  "restart_steps cfg fuel openId =
     await (startVM cfg openId) (\<lambda>vmInfo.
     await (lift_sum (get_prop vmInfo ''vm_ip'')) (\<lambda>ip.
     await (lift_sum (get_prop vmInfo ''webhook_url'')) (\<lambda>url.
     await date_now (\<lambda>created.
     await date_now (\<lambda>active.
     await (setVMBinding openId (binding_val (vm_binding_of ip url Running created active))) (\<lambda>_.
     await (sendTextMessage cfg fuel openId (StrV RESTARTED_TEXT)) (\<lambda>_.
     Return ())))))))"

definition restart_task :: "config \<Rightarrow> nat \<Rightarrow> jsval \<Rightarrow> unit act" where
  "restart_task cfg fuel openId =
     try_catch (restart_steps cfg fuel openId)
       (\<lambda>err. updateVMBindingStatus openId ErrorStatus (Some (error_fields err)))"

section \<open>The handlers\<close>

definition initial_binding :: "int \<Rightarrow> int \<Rightarrow> vm_binding" where
  "initial_binding created active = vm_binding_of (StrV []) (StrV []) Provisioning created active"

definition handleNewUser :: "library \<Rightarrow> (jsstr \<Rightarrow> reply act) \<Rightarrow> jsval \<Rightarrow> jsval \<Rightarrow> reply act" where
  "handleNewUser lib send openId toUser =
     await date_now (\<lambda>created.
     await date_now (\<lambda>active.
     await (setVMBinding openId (binding_val (initial_binding created active))) (\<lambda>_.
     await (spawn (ProvisionTask openId)) (\<lambda>_.
     say lib send openId toUser WELCOME_TEXT))))"

definition handleStatusCommand :: "library \<Rightarrow> config \<Rightarrow> (jsstr \<Rightarrow> reply act) \<Rightarrow> jsval \<Rightarrow> jsval \<Rightarrow> reply act" where
  "handleStatusCommand lib cfg send openId toUser =
     await (getVMBinding openId) (\<lambda>binding.
       if \<not> truthy binding then say lib send openId toUser NO_VM_TEXT
       else await (lift_sum (get_prop binding ''createdAt'')) (\<lambda>created.
            await (lift_sum (get_prop binding ''status'')) (\<lambda>status.
            await (lift_sum (get_prop binding ''vmIp'')) (\<lambda>ip.
            say lib send openId toUser (STATUS_TEXT cfg openId status ip (lib_date lib created))))))"

definition handleRestartCommand :: "library \<Rightarrow> (jsstr \<Rightarrow> reply act) \<Rightarrow> jsval \<Rightarrow> jsval \<Rightarrow> reply act" where
  "handleRestartCommand lib send openId toUser =
     await (updateVMBindingStatus openId Provisioning None) (\<lambda>_.
     await (spawn (RestartTask openId)) (\<lambda>_.
     say lib send openId toUser RESTARTING_TEXT))"

definition handleStopCommand :: "library \<Rightarrow> config \<Rightarrow> (jsstr \<Rightarrow> reply act) \<Rightarrow> jsval \<Rightarrow> jsval \<Rightarrow> reply act" where
  "handleStopCommand lib cfg send openId toUser =
     try_catch
       (await (stopVM cfg openId) (\<lambda>_.
        await (updateVMBindingStatus openId Stopped None) (\<lambda>_.
        say lib send openId toUser STOPPED_TEXT)))
       (\<lambda>err. say lib send openId toUser STOP_FAILED_TEXT)"

definition handleDestroyCommand :: "library \<Rightarrow> config \<Rightarrow> (jsstr \<Rightarrow> reply act) \<Rightarrow> jsval \<Rightarrow> jsval \<Rightarrow> reply act" where
  "handleDestroyCommand lib cfg send openId toUser =
     try_catch
       (await (destroyVM cfg openId) (\<lambda>_.
        await (deleteVMBinding openId) (\<lambda>_.
        say lib send openId toUser DESTROYED_TEXT)))
       (\<lambda>err. say lib send openId toUser DESTROY_FAILED_TEXT)"

definition handlePasswdCommand ::
    "library \<Rightarrow> config \<Rightarrow> (jsstr \<Rightarrow> reply act) \<Rightarrow> jsval \<Rightarrow> jsval \<Rightarrow> jsstr \<Rightarrow> reply act" where
  "handlePasswdCommand lib cfg send openId toUser newPassword =
     (if length newPassword < 8 then say lib send openId toUser PASSWD_SHORT_TEXT
      else try_catch
        (await (changePassword cfg openId newPassword) (\<lambda>_.
         say lib send openId toUser PASSWD_OK_TEXT))
        (\<lambda>err. say lib send openId toUser PASSWD_FAILED_TEXT))"

section \<open>POST /wechat\<close>

text \<open>
  The \<open>try\<close> block that reads the message: \<open>Inl\<close> an exception (answered with 400), \<open>Inr (Inl r)\<close> an
  early reply, \<open>Inr (Inr m)\<close> the message.
\<close>

definition readMessage :: "library \<Rightarrow> config \<Rightarrow> wechat_query \<Rightarrow> jsval \<Rightarrow> jserr + (reply + jsval)" where
  "readMessage lib cfg q body =
     (let wc = cf_wechat cfg
      in if q_encrypt_type q = Some (js ''aes'')
         then if \<not> given (wc_encodingAESKey wc) then Inr (Inl (plain_reply 500 ''Encryption key not configured''))
              else sum_bind (extractEncryptedContent (lib_parse lib) body) (\<lambda>encryptedContent.
                if \<not> truthy encryptedContent then Inr (Inl (plain_reply 400 ''Missing encrypted content''))
                else if given (q_msg_signature q)
                  \<and> \<not> validateMsgSignature (wc_token wc) (text_of (q_timestamp q)) (text_of (q_nonce q))
                        encryptedContent (text_of (q_msg_signature q))
                then Inr (Inl (plain_reply 403 ''Invalid msg_signature''))
                else sum_bind (decryptMessage encryptedContent (text_of (wc_encodingAESKey wc)) (wc_appId wc))
                       (\<lambda>decryptedXml. sum_bind (parseWeChatXml lib (StrV decryptedXml)) (\<lambda>m. Inr (Inr m))))
         else sum_bind (parseWeChatXml lib body) (\<lambda>m. Inr (Inr m)))"

text \<open>Routing a message that is no command by the status of the binding.\<close>

definition routeMessage ::
    "library \<Rightarrow> config \<Rightarrow> (jsstr \<Rightarrow> reply act) \<Rightarrow> jsval \<Rightarrow> jsval \<Rightarrow> jsval \<Rightarrow> reply act" where
  "routeMessage lib cfg send message openId toUser =
     await (getVMBinding openId) (\<lambda>binding.
       if \<not> truthy binding then handleNewUser lib send openId toUser
       else await (lift_sum (get_prop binding ''status'')) (\<lambda>status.
         if status = str_val ''provisioning'' then say lib send openId toUser PROVISIONING_TEXT
         else if status = str_val ''stopped'' then handleRestartCommand lib send openId toUser
         else if status = str_val ''error''
           then await (lift_sum (get_prop binding ''errorMessage'')) (\<lambda>em.
                say lib send openId toUser (ERROR_TEXT em))
         else if status = str_val ''running''
           then await (updateVMBindingStatus openId Running None) (\<lambda>_.
                await (forwardToClawdbot message binding) (\<lambda>_.
                say lib send openId toUser PROCESSING_TEXT))
         else say lib send openId toUser UNKNOWN_STATUS_TEXT))"

text \<open>
  The commands, tried in this order on the trimmed text; \<open>None\<close> when the text is no command and goes
  on to the routing.
\<close>

definition runCommand ::
    "library \<Rightarrow> config \<Rightarrow> (jsstr \<Rightarrow> reply act) \<Rightarrow> jsval \<Rightarrow> jsval \<Rightarrow> jsstr \<Rightarrow> reply act option" where
  "runCommand lib cfg send openId toUser content =
     (if HELP_REGEX content then Some (say lib send openId toUser (HELP_TEXT cfg openId))
      else if STATUS_REGEX content then Some (handleStatusCommand lib cfg send openId toUser)
      else if RESTART_REGEX content then Some (handleRestartCommand lib send openId toUser)
      else if STOP_REGEX content then Some (handleStopCommand lib cfg send openId toUser)
      else if DESTROY_REGEX content then Some (handleDestroyCommand lib cfg send openId toUser)
      else (case PASSWD_REGEX content of
              Some pw \<Rightarrow> Some (handlePasswdCommand lib cfg send openId toUser pw)
            | None \<Rightarrow> None))"

text \<open>\<open>message.Content.trim()\<close>: only strings have the method.\<close>

definition trim_content :: "jsval \<Rightarrow> jserr + jsstr" where
  "trim_content v =
     (case v of StrV s \<Rightarrow> Inr (trim s)
      | _ \<Rightarrow> Inl (ErrorObj TypeError (js ''message.Content.trim is not a function'') None))"

definition handleMessage :: "library \<Rightarrow> config \<Rightarrow> (jsstr \<Rightarrow> reply act) \<Rightarrow> jsval \<Rightarrow> reply act" where
  "handleMessage lib cfg send message =
     await (lift_sum (get_prop message ''FromUserName'')) (\<lambda>openId.
     await (lift_sum (get_prop message ''ToUserName'')) (\<lambda>toUser.
     await (lift_sum (get_prop message ''MsgType'')) (\<lambda>msgType.
     await (lift_sum (get_prop message ''Event'')) (\<lambda>event.
     await (lift_sum (get_prop message ''Content'')) (\<lambda>content.
       if msgType = str_val ''event''
       then if event = str_val ''subscribe'' then handleNewUser lib send openId toUser
            else Return (typed_reply ''text/plain'' [])
       else if msgType = str_val ''text'' \<and> truthy content
       then await (lift_sum (trim_content content)) (\<lambda>text.
            case runCommand lib cfg send openId toUser text of
              Some reply \<Rightarrow> reply
            | None \<Rightarrow> routeMessage lib cfg send message openId toUser)
       else routeMessage lib cfg send message openId toUser)))))"

definition postWechat :: "library \<Rightarrow> config \<Rightarrow> wechat_query \<Rightarrow> jsval \<Rightarrow> reply act" where
  "postWechat lib cfg q body =
     (if \<not> given (q_signature q) \<or> \<not> given (q_timestamp q) \<or> \<not> given (q_nonce q)
      then Return (plain_reply 400 ''Missing parameters'')
      else if \<not> validateSignature (wc_token (cf_wechat cfg)) (text_of (q_signature q))
                (text_of (q_timestamp q)) (text_of (q_nonce q))
      then Return (plain_reply 403 ''Invalid signature'')
      else case readMessage lib cfg q body of
             Inl error \<Rightarrow> Return (plain_reply 400 ''Invalid message'')
           | Inr (Inl early) \<Rightarrow> Return early
           | Inr (Inr message) \<Rightarrow>
               handleMessage lib cfg (sendReply cfg (q_encrypt_type q = Some (js ''aes''))) message)"

section \<open>What the handlers ask of the outside\<close>

text \<open>The tasks started for a user, and every request a message of the user may cause.\<close>

fun own_task :: "jsval \<Rightarrow> task \<Rightarrow> bool" where
  "own_task u (ProvisionTask v) \<longleftrightarrow> v = u"
| "own_task u (RestartTask v) \<longleftrightarrow> v = u"
| "own_task u (ForwardTask m b) \<longleftrightarrow> get_prop m ''FromUserName'' = Inr u"

fun user_req :: "config \<Rightarrow> jsval \<Rightarrow> req \<Rightarrow> bool" where
  "user_req cfg u (RedisGet k) \<longleftrightarrow> k = binding_key u"
| "user_req cfg u (RedisSet k v m) \<longleftrightarrow> k = binding_key u \<and> m = SetPlain"
| "user_req cfg u (RedisDel k) \<longleftrightarrow> k = binding_key u"
| "user_req cfg u (RedisExists k) \<longleftrightarrow> k = binding_key u"
| "user_req cfg u (Http q) \<longleftrightarrow> vm_request cfg u q"
| "user_req cfg u (Spawn t) \<longleftrightarrow> own_task u t"
| "user_req cfg u (Sleep ms) \<longleftrightarrow> False"
| "user_req cfg u _ \<longleftrightarrow> True"

lemma vm_req_user_req: "requests (vm_req cfg u) m \<Longrightarrow> requests (user_req cfg u) m"
  by (erule safe_mono) (auto elim: vm_req.elims)

lemmas user_vm_requests [safe_intros] = vm_requests [THEN vm_req_user_req]

lemma user_store_requests [safe_intros]:
  "requests (user_req cfg u) (getVMBinding u)"
  "requests (user_req cfg u) (setVMBinding u b)"
  "requests (user_req cfg u) (updateVMBindingStatus u s fs)"
  "requests (user_req cfg u) (deleteVMBinding u)"
  by (rule store_requests; simp)+

lemma requests_say [safe_intros]:
  "P DateNow \<Longrightarrow> (\<And>x. requests P (send x)) \<Longrightarrow> requests P (say lib send u v c)"
  unfolding say_def by (intro safe_intros)

lemma requests_sendReply:
  "P (RandomBytes 16) \<Longrightarrow> P DateNow \<Longrightarrow> P (RandomInt 1000000000) \<Longrightarrow> requests P (sendReply cfg enc x)"
  unfolding sendReply_def encryptMessage_def Let_def by (auto intro!: safe_intros)

lemma requests_handleNewUser [safe_intros]:
  "(\<And>x. requests (user_req cfg u) (send x)) \<Longrightarrow> requests (user_req cfg u) (handleNewUser lib send u v)"
  unfolding handleNewUser_def by (intro safe_intros) simp_all

lemma requests_handleStatusCommand [safe_intros]:
  "(\<And>x. requests (user_req cfg u) (send x)) \<Longrightarrow> requests (user_req cfg u) (handleStatusCommand lib cfg send u v)"
  unfolding handleStatusCommand_def by (auto intro!: safe_intros)

lemma requests_handleRestartCommand [safe_intros]:
  "(\<And>x. requests (user_req cfg u) (send x)) \<Longrightarrow> requests (user_req cfg u) (handleRestartCommand lib send u v)"
  unfolding handleRestartCommand_def by (intro safe_intros) simp_all

lemma requests_handleStopCommand [safe_intros]:
  "(\<And>x. requests (user_req cfg u) (send x)) \<Longrightarrow> requests (user_req cfg u) (handleStopCommand lib cfg send u v)"
  unfolding handleStopCommand_def by (intro safe_intros) simp_all

lemma requests_handleDestroyCommand [safe_intros]:
  "(\<And>x. requests (user_req cfg u) (send x)) \<Longrightarrow> requests (user_req cfg u) (handleDestroyCommand lib cfg send u v)"
  unfolding handleDestroyCommand_def by (intro safe_intros) simp_all

lemma requests_handlePasswdCommand [safe_intros]:
  "(\<And>x. requests (user_req cfg u) (send x)) \<Longrightarrow> requests (user_req cfg u) (handlePasswdCommand lib cfg send u v p)"
  unfolding handlePasswdCommand_def by (auto intro!: safe_intros)

lemmas handler_requests = requests_handleNewUser requests_handleStatusCommand requests_handleRestartCommand
  requests_handleStopCommand requests_handleDestroyCommand requests_handlePasswdCommand

lemma requests_runCommand:
  "runCommand lib cfg send u v c = Some r \<Longrightarrow> (\<And>x. requests (user_req cfg u) (send x)) \<Longrightarrow>
     requests (user_req cfg u) r"
  unfolding runCommand_def
  by (auto intro!: handler_requests requests_say split: if_splits option.splits)

lemma requests_routeMessage:
  assumes "\<And>x. requests (user_req cfg u) (send x)" and "get_prop m ''FromUserName'' = Inr u"
  shows "requests (user_req cfg u) (routeMessage lib cfg send m u v)"
  unfolding routeMessage_def forwardToClawdbot_def
  using assms by (auto intro!: safe_intros)

lemma requests_handleMessage:
  assumes "\<And>x. requests (user_req cfg u) (send x)" and "get_prop m ''FromUserName'' = Inr u"
  shows "requests (user_req cfg u) (handleMessage lib cfg send m)"
proof -
  note route = requests_routeMessage [OF assms]
  have cmd: "requests (user_req cfg u) (case runCommand lib cfg send u v c of Some r \<Rightarrow> r
      | None \<Rightarrow> routeMessage lib cfg send m u v)" for v c
    using requests_runCommand [of lib cfg send u v c] route assms(1) by (auto split: option.split)
  show ?thesis
    unfolding handleMessage_def assms(2) lift_sum_simps await.simps
    by (intro safe_intros) (auto intro!: safe_intros route cmd assms(1))
qed

lemma requests_postWechat:
  assumes "readMessage lib cfg q body = Inr (Inr m)" and "get_prop m ''FromUserName'' = Inr u"
  shows "requests (user_req cfg u) (postWechat lib cfg q body)"
  unfolding postWechat_def using assms
  by (auto intro!: requests_handleMessage requests_sendReply)

section \<open>The background procedures\<close>

text \<open>A background task makes the requests of its user, and sends customer-service messages to him.\<close>

definition to_user :: "jsval \<Rightarrow> jsval \<Rightarrow> bool" where
  "to_user u m \<longleftrightarrow> get_prop m ''touser'' = Inr u"

definition task_req :: "config \<Rightarrow> jsval \<Rightarrow> req \<Rightarrow> bool" where
  "task_req cfg u r \<longleftrightarrow> user_req cfg u r \<or> message_req cfg (to_user u) r"

lemma user_req_task_req: "requests (user_req cfg u) m \<Longrightarrow> requests (task_req cfg u) m"
  by (erule safe_mono) (simp_all add: task_req_def)

lemma requests_notify: "requests (task_req cfg u) (sendTextMessage cfg n u v)"
  by (rule safe_mono, rule requests_sendTextMessage [where M = "to_user u"])
    (auto simp: to_user_def text_message_def js_simps task_req_def)

lemmas user_task_requests = user_vm_requests [THEN user_req_task_req]
  user_store_requests [THEN user_req_task_req] requests_notify

lemma requests_provisionVMAsync: "requests (task_req cfg u) (provisionVMAsync cfg n u)"
  unfolding provisionVMAsync_def provision_steps_def
  by (intro safe_intros user_task_requests) (simp_all add: task_req_def)

lemma requests_restart_task: "requests (task_req cfg u) (restart_task cfg n u)"
  unfolding restart_task_def restart_steps_def
  by (intro safe_intros user_task_requests) (simp_all add: task_req_def)

section \<open>Encrypted replies\<close>

text \<open>
  An encrypted reply carries a valid signature of its own parts, and its ciphertext decrypts to the
  plain reply.
\<close>

lemma sendReply_encrypted:
  assumes "wc_encodingAESKey (cf_wechat cfg) = Some key" "key \<noteq> []" "length (decodeAESKey key) = 32"
    and "well_formed xml" "length (utf8_encode xml) < 2 ^ 32" "well_formed (wc_appId (cf_wechat cfg))"
    and "fst (sv w (RandomBytes 16)) = GotBytes rnd" "length rnd = 16"
    and "run sv (sendReply cfg True xml) w = (Returned r, w')"
  obtains c s ts n where "r = typed_reply ''text/xml'' (buildEncryptedReply c s ts n)"
    and "validateMsgSignature (wc_token (cf_wechat cfg)) ts n (StrV c) s"
    and "decryptMessage (StrV c) key (wc_appId (cf_wechat cfg)) = Inr xml"
proof -
  obtain c where c: "encrypt_with rnd xml key (wc_appId (cf_wechat cfg)) = Inr c"
      "decryptMessage (StrV c) key (wc_appId (cf_wechat cfg)) = Inr xml"
    by (rule decrypt_encrypt_with [OF assms(3,8,4,5,6)]) auto
  have "run sv (sendReply cfg True xml) w =
      run sv (await now_seconds (\<lambda>t. await (random_int 1000000000) (\<lambda>r.
        Return (typed_reply ''text/xml'' (buildEncryptedReply c
          (generateMsgSignature (wc_token (cf_wechat cfg)) (int_str t) (int_str r) (StrV c)) (int_str t) (int_str r))))))
        (snd (sv w (RandomBytes 16)))"
    using assms(1,2,7) c(1)
    by (simp add: sendReply_def given_def text_of_def encryptMessage_def random_bytes_def Let_def)
  with assms(9) obtain t i where "r = typed_reply ''text/xml'' (buildEncryptedReply c
      (generateMsgSignature (wc_token (cf_wechat cfg)) (int_str t) (int_str i) (StrV c)) (int_str t) (int_str i))"
    by (auto simp: act_simps split: prod.splits outcome.splits)
  with that c(2) show thesis by (simp add: validateMsgSignature_generate)
qed

text \<open>
  A message that WeChat encrypts for this account and signs is read back; a wrong signature is
  refused before anything is decrypted.
\<close>

lemma readMessage_encrypted:
  assumes "wc_encodingAESKey (cf_wechat cfg) = Some key" "key \<noteq> []" "length (decodeAESKey key) = 32"
    and "well_formed xml" "length (utf8_encode xml) < 2 ^ 32" "well_formed (wc_appId (cf_wechat cfg))"
    and "length rnd = 16" "encrypt_with rnd xml key (wc_appId (cf_wechat cfg)) = Inr c"
    and "extractEncryptedContent (lib_parse lib) body = Inr (StrV c)"
    and "q_encrypt_type q = Some (js ''aes'')"
  shows "readMessage lib cfg q body =
    (if given (q_msg_signature q) \<and> text_of (q_msg_signature q) \<noteq> generateMsgSignature (wc_token (cf_wechat cfg))
          (text_of (q_timestamp q)) (text_of (q_nonce q)) (StrV c)
     then Inr (Inl (plain_reply 403 ''Invalid msg_signature''))
     else sum_bind (parseWeChatXml lib (StrV xml)) (\<lambda>m. Inr (Inr m)))"
proof -
  obtain c' where c': "encrypt_with rnd xml key (wc_appId (cf_wechat cfg)) = Inr c'"
      "decryptMessage (StrV c') key (wc_appId (cf_wechat cfg)) = Inr xml"
    by (rule decrypt_encrypt_with [OF assms(3,7,4,5,6)]) auto
  with assms(8) have dec: "decryptMessage (StrV c) key (wc_appId (cf_wechat cfg)) = Inr xml" by simp
  note ne = encrypt_with_ne [OF assms(3,7,4,5,6,8)]
  have key: "given (wc_encodingAESKey (cf_wechat cfg))" "text_of (wc_encodingAESKey (cf_wechat cfg)) = key"
    using assms(1,2) by (simp_all add: given_def text_of_def)
  have "validateMsgSignature tok ts n (StrV c) s \<longleftrightarrow> s = generateMsgSignature tok ts n (StrV c)" for tok ts n s
    by (rule validateMsgSignature_generate)
  then show ?thesis
    using dec key ne assms(9,10) by (simp add: readMessage_def Let_def)
qed

end
