(* ===== verification/Keyspace.thy ===== *)
theory Keyspace
  imports RedisService
begin

text \<open>
  A reference outside world: a Redis keyspace with expiry, a clock, a peer that answers HTTP requests
  and the record of what was asked of it.  No definition of the program uses it.  It discharges the
  laws of \<open>redis_service\<close> (so the interface is not empty) and is what the witnesses run against.

  The orchestrator shares the Redis server: while it serves a request it saves and deletes entries
  under \<open>vm:binding:\<close> (\<open>saveVMInfo\<close> and \<open>DestroyVM\<close> in its \<open>manager.go\<close>).  So an HTTP exchange has, beside its
  answer, the writes \<open>ks_orch\<close>: user ids with the entry saved, or with \<open>None\<close> for one that is deleted.
\<close>

record keyspace =
  ks_map :: "jsstr \<Rightarrow> (jsstr \<times> int option) option"
  ks_clock :: int
  ks_peer :: "nat \<Rightarrow> http_req \<Rightarrow> resp"
  ks_orch :: "nat \<Rightarrow> http_req \<Rightarrow> (jsstr \<times> jsstr option) list"
  ks_sent :: "http_req list"
  ks_tasks :: "task list"

text \<open>An entry whose time to live (kept as a time of the clock) has passed is gone.\<close>

definition ks_live :: "keyspace \<Rightarrow> jsstr \<Rightarrow> jsstr option" where
  "ks_live w k = (case ks_map w k of None \<Rightarrow> None
     | Some (v, ttl) \<Rightarrow> (case ttl of None \<Rightarrow> Some v | Some t \<Rightarrow> if ks_clock w < t then Some v else None))"

definition ks_store :: "keyspace \<Rightarrow> jsstr \<Rightarrow> jsstr \<Rightarrow> int option \<Rightarrow> keyspace" where
  "ks_store w k v ttl = w\<lparr>ks_map := (ks_map w)(k := Some (v, map_option (\<lambda>s. ks_clock w + 1000 * s) ttl))\<rparr>"

text \<open>The orchestrator saves its entries without a time to live.\<close>

fun orch_write :: "jsstr \<times> jsstr option \<Rightarrow> (jsstr \<Rightarrow> (jsstr \<times> int option) option) \<Rightarrow> jsstr \<Rightarrow> (jsstr \<times> int option) option" where
  "orch_write (x, e) ks = ks(VM_BINDING_PREFIX @ x := map_option (\<lambda>s. (s, None)) e)"

text \<open>The world after an HTTP exchange.\<close>

definition ks_next :: "keyspace \<Rightarrow> http_req \<Rightarrow> keyspace" where
  "ks_next w q = w\<lparr>ks_map := fold orch_write (ks_orch w (length (ks_sent w)) q) (ks_map w), ks_sent := ks_sent w @ [q]\<rparr>"

definition redis_failure :: resp where
  "redis_failure = Failed (ErrorObj ServiceError (js ''ERR value is not an integer or out of range'') None)"

fun ref_service :: "keyspace \<Rightarrow> req \<Rightarrow> resp \<times> keyspace" where
  "ref_service w (RedisGet k) = (GotStr (ks_live w k), w)"
| "ref_service w (RedisSet k v SetPlain) = (GotBool True, ks_store w k v None)"
| "ref_service w (RedisSet k v (SetEx (NumV (Dec s 0)))) =
     (if 0 < s then (GotBool True, ks_store w k v (Some s)) else (redis_failure, w))"
| "ref_service w (RedisSet k v (SetEx _)) = (redis_failure, w)"
| "ref_service w (RedisSet k v (SetNxEx s)) =
     (if ks_live w k = None then (GotBool True, ks_store w k v (Some (int s))) else (GotBool False, w))"
| "ref_service w (RedisDel k) =
     (GotNum (if ks_live w k = None then 0 else 1), w\<lparr>ks_map := (ks_map w)(k := None)\<rparr>)"
| "ref_service w (RedisExists k) = (GotNum (if ks_live w k = None then 0 else 1), w)"
| "ref_service w (Http q) = (ks_peer w (length (ks_sent w)) q, ks_next w q)"
| "ref_service w DateNow = (GotNum (ks_clock w), w)"
| "ref_service w (Sleep ms) = (Done, w\<lparr>ks_clock := ks_clock w + int ms\<rparr>)"
| "ref_service w (RandomBytes n) = (GotBytes (replicate n 0), w)"
| "ref_service w (RandomInt n) = (GotNum 0, w)"
| "ref_service w (Spawn t) = (Done, w\<lparr>ks_tasks := ks_tasks w @ [t]\<rparr>)"

lemma ks_live_store: "ks_live (ks_store w k v None) = (ks_live w)(k \<mapsto> v)"
  by (rule ext) (simp add: ks_live_def ks_store_def split: option.split)

lemma ks_live_del: "ks_live (w\<lparr>ks_map := (ks_map w)(k := None)\<rparr>) = (ks_live w)(k := None)"
  by (rule ext) (simp add: ks_live_def split: option.split)

interpretation ref: redis_service ref_service ks_live
  by unfold_locales (simp_all add: ks_live_store ks_live_del)

text \<open>The milliseconds a lock entry has left, and whether it has a time to live at all.\<close>

definition ks_remaining :: "jsstr \<Rightarrow> keyspace \<Rightarrow> nat" where
  "ks_remaining lk w = (case ks_map w lk of Some (v, Some t) \<Rightarrow> nat (t - ks_clock w) | _ \<Rightarrow> 0)"

definition ks_timed :: "jsstr \<Rightarrow> keyspace \<Rightarrow> bool" where
  "ks_timed lk w = (case ks_map w lk of Some (v, None) \<Rightarrow> False | _ \<Rightarrow> True)"

interpretation ref_lock: redis_lock ref_service ks_live lk "ks_remaining lk" "ks_timed lk" for lk
  by unfold_locales
    (auto simp: ks_remaining_def ks_timed_def ks_live_def split: option.splits if_splits)

lemmas ref_redis_lock = ref_lock.redis_lock_axioms

lemmas ref_redis_service = ref.redis_service_axioms

text \<open>An empty world at time \<open>t\<close> whose peer answers with \<open>p\<close> and writes nothing.\<close>

definition fresh_world :: "int \<Rightarrow> (nat \<Rightarrow> http_req \<Rightarrow> resp) \<Rightarrow> keyspace" where
  "fresh_world t p = \<lparr>ks_map = (\<lambda>_. None), ks_clock = t, ks_peer = p, ks_orch = (\<lambda>n q. []), ks_sent = [], ks_tasks = []\<rparr>"

definition no_peer :: "nat \<Rightarrow> http_req \<Rightarrow> resp" where
  "no_peer n q = Failed (ErrorObj ServiceError (js ''connect ECONNREFUSED'') None)"

lemma ks_live_fresh [simp]: "ks_live (fresh_world t p) = (\<lambda>_. None)"
  by (auto simp: ks_live_def fresh_world_def)

lemma fresh_world_simps [simp]:
  "ks_clock (fresh_world t p) = t" "ks_peer (fresh_world t p) = p" "ks_sent (fresh_world t p) = []"
  "ks_tasks (fresh_world t p) = []" "ks_map (fresh_world t p) = (\<lambda>_. None)" "ks_orch (fresh_world t p) = (\<lambda>n q. [])"
  by (simp_all add: fresh_world_def)

section \<open>Running the program against it\<close>

lemma ref_run [simp]:
  "run ref_service (redis_get k) w = (Returned (ks_live w k), w)"
  "run ref_service (redis_set k v SetPlain) w = (Returned True, ks_store w k v None)"
  "run ref_service (redis_del k) w =
     (Returned (if ks_live w k = None then 0 else 1), w\<lparr>ks_map := (ks_map w)(k := None)\<rparr>)"
  "run ref_service (redis_exists k) w = (Returned (if ks_live w k = None then 0 else 1), w)"
  "run ref_service date_now w = (Returned (ks_clock w), w)"
  "run ref_service now_seconds w = (Returned (ks_clock w div 1000), w)"
  "run ref_service (random_int n) w = (Returned 0, w)"
  "run ref_service (random_bytes n) w = (Returned (replicate n 0), w)"
  "run ref_service (sleep ms) w = (Returned (), w\<lparr>ks_clock := ks_clock w + int ms\<rparr>)"
  "run ref_service (spawn t) w = (Returned (), w\<lparr>ks_tasks := ks_tasks w @ [t]\<rparr>)"
  by (simp_all add: request_defs now_seconds_def)

definition ks_answer :: "keyspace \<Rightarrow> http_req \<Rightarrow> resp" where
  "ks_answer w q = ks_peer w (length (ks_sent w)) q"

lemma ref_run_http:
  "run ref_service (http q) w =
     (case ks_answer w q of GotHttp s \<Rightarrow> Returned s | r \<Rightarrow> Threw (fail_of r), ks_next w q)"
  by (simp add: http_def ks_answer_def split: resp.split)

lemma ref_run_lift_sum [simp]:
  "run sv (lift_sum m) w = (case m of Inl e \<Rightarrow> Threw e | Inr x \<Rightarrow> Returned x, w)"
  by (cases m) simp_all

text \<open>The binding a world holds for a user, and the world with another one.\<close>

definition ks_binding :: "keyspace \<Rightarrow> jsval \<Rightarrow> jsval" where
  "ks_binding w u = decode_binding (ks_live w (binding_key u))"

definition ks_bind :: "keyspace \<Rightarrow> jsval \<Rightarrow> jsval \<Rightarrow> keyspace" where
  "ks_bind w u b = ks_store w (binding_key u) (stringify b) None"

definition ks_unbind :: "keyspace \<Rightarrow> jsval \<Rightarrow> keyspace" where
  "ks_unbind w u = w\<lparr>ks_map := (ks_map w)(binding_key u := None)\<rparr>"

lemma ks_fields [simp]:
  "ks_clock (ks_bind w u b) = ks_clock w" "ks_sent (ks_bind w u b) = ks_sent w"
  "ks_tasks (ks_bind w u b) = ks_tasks w" "ks_peer (ks_bind w u b) = ks_peer w"
  "ks_clock (ks_unbind w u) = ks_clock w" "ks_sent (ks_unbind w u) = ks_sent w"
  "ks_tasks (ks_unbind w u) = ks_tasks w" "ks_peer (ks_unbind w u) = ks_peer w"
  "ks_clock (ks_next w q) = ks_clock w" "ks_sent (ks_next w q) = ks_sent w @ [q]"
  "ks_tasks (ks_next w q) = ks_tasks w" "ks_peer (ks_next w q) = ks_peer w"
  "ks_orch (ks_bind w u b) = ks_orch w" "ks_orch (ks_unbind w u) = ks_orch w" "ks_orch (ks_next w q) = ks_orch w"
  by (simp_all add: ks_bind_def ks_store_def ks_unbind_def ks_next_def)

lemma ks_live_frame [simp]:
  "ks_live (w\<lparr>ks_tasks := ts\<rparr>) = ks_live w" "ks_live (w\<lparr>ks_sent := qs\<rparr>) = ks_live w"
  by (auto simp: ks_live_def fun_eq_iff split: option.split)

lemma ks_binding_frame [simp]: "ks_binding (w\<lparr>ks_tasks := ts\<rparr>) u = ks_binding w u"
  by (simp add: ks_binding_def)

text \<open>The orchestrator writes entries of the users it names, and nothing else.\<close>

lemma fold_orch_write_other:
  "(\<And>x e. (x, e) \<in> set ws \<Longrightarrow> k \<noteq> VM_BINDING_PREFIX @ x) \<Longrightarrow> fold orch_write ws m k = m k"
proof (induction ws arbitrary: m)
  case (Cons a ws)
  obtain x e where a: "a = (x, e)" by fastforce
  have "fold orch_write ws (orch_write a m) k = orch_write a m k" by (rule Cons.IH) (use Cons.prems in auto)
  moreover have "k \<noteq> VM_BINDING_PREFIX @ x" by (rule Cons.prems [of x e]) (simp add: a)
  ultimately show ?case by (simp add: a)
qed simp

lemma ks_map_next_other: "(\<And>u. k \<noteq> binding_key u) \<Longrightarrow> ks_map (ks_next w q) k = ks_map w k"
proof -
  assume "\<And>u. k \<noteq> binding_key u"
  then have "k \<noteq> VM_BINDING_PREFIX @ x" for x using binding_key_def [of "StrV x"] by (metis to_str.simps(5))
  then show ?thesis unfolding ks_next_def by (simp add: fold_orch_write_other)
qed

lemma ks_next_silent: "ks_orch w (length (ks_sent w)) q = [] \<Longrightarrow> ks_next w q = w\<lparr>ks_sent := ks_sent w @ [q]\<rparr>"
  by (simp add: ks_next_def)

lemma ks_binding_bind:
  "json_ok b \<Longrightarrow> ks_binding (ks_bind w u b) v = (if to_str v = to_str u then b else ks_binding w v)"
  by (simp add: ks_binding_def ks_bind_def ks_live_store decode_stringify)

lemma ks_binding_bind_other: "to_str v \<noteq> to_str u \<Longrightarrow> ks_binding (ks_bind w u b) v = ks_binding w v"
  by (simp add: ks_binding_def ks_bind_def ks_live_store)

lemma ks_binding_unbind:
  "ks_binding (ks_unbind w u) v = (if to_str v = to_str u then Null else ks_binding w v)"
  by (simp add: ks_binding_def ks_unbind_def ks_live_del decode_binding_def)

lemma ref_run_store [simp]:
  "run ref_service (getVMBinding u) w = (Returned (ks_binding w u), w)"
  "run ref_service (setVMBinding u b) w = (Returned (), ks_bind w u b)"
  "run ref_service (deleteVMBinding u) w = (Returned (ks_live w (binding_key u) \<noteq> None), ks_unbind w u)"
  by (simp_all add: getVMBinding_def setVMBinding_def deleteVMBinding_def act_simps ks_binding_def ks_bind_def
      ks_unbind_def)

lemma ref_run_update:
  "run ref_service (updateVMBindingStatus u s fs) w =
     (if \<not> truthy (ks_binding w u) then (Returned (), w)
      else case touch_binding (ks_binding w u) s (ks_clock w) fs of
             Inl e \<Rightarrow> (Threw e, w) | Inr b \<Rightarrow> (Returned (), ks_bind w u b))"
  by (simp add: updateVMBindingStatus_def act_simps split: sum.split)

text \<open>The status a world holds for a user: the abstract state of the routes.\<close>

definition ks_status :: "keyspace \<Rightarrow> jsval \<Rightarrow> jsval" where
  "ks_status w u = opt_prop (ks_binding w u) ''status''"

end
