(* ===== verification/CallbackRoutes.thy ===== *)
theory CallbackRoutes
  imports WechatRoutes Keyspace
begin

text \<open>
  \<open>routes/callback.ts\<close>: the two endpoints the agent in a VM calls with its result, which is passed on to
  the user as a customer-service message.  The body of a request is whatever was posted.
\<close>

section \<open>The thinking time\<close>

text \<open>
  \<open>(ms / 1000).toFixed(1)\<close>.  The quotient is rounded to a binary64 number (53 bits, ties to even)
  before the decimal is chosen, which decides ties such as \<open>1450 / 1000\<close>.
\<close>

fun bit_len :: "nat \<Rightarrow> nat" where
  "bit_len n = (if n = 0 then 0 else Suc (bit_len (n div 2)))"

declare bit_len.simps [simp del]

text \<open>The double nearest to \<open>a / b\<close>, as a fraction of natural numbers.\<close>

definition double_quotient :: "nat \<Rightarrow> nat \<Rightarrow> nat \<times> nat" where
  "double_quotient a b =
     (let s0 = 53 + int (bit_len b) - int (bit_len a);
          num = (\<lambda>s. a * 2 ^ nat s); den = (\<lambda>s. b * 2 ^ nat (- s));
          s = (if 2 ^ 53 \<le> num s0 div den s0 then s0 - 1 else s0);
          q = num s div den s; r = num s mod den s;
          q' = (if den s < 2 * r \<or> den s = 2 * r \<and> odd q then q + 1 else q)
      in (q' * 2 ^ nat (- s), 2 ^ nat s))"

definition fixed1 :: "nat \<times> nat \<Rightarrow> jsstr" where
  "fixed1 x = (case x of (p, q) \<Rightarrow>
     let n = (20 * p + q) div (2 * q) in nat_digits (n div 10) @ js ''.'' @ [digit (n mod 10)])"

fun thinking_seconds :: "jsnum \<Rightarrow> jsstr" where
  "thinking_seconds NaN = js ''NaN''"
| "thinking_seconds (Dec m k) =
     (if 10 ^ 24 * 10 ^ k \<le> \<bar>m\<bar> then num_str (canon m (k + 3))
      else (if m < 0 then js ''-'' else []) @ fixed1 (double_quotient (nat \<bar>m\<bar>) (1000 * 10 ^ k)))"

section \<open>POST /callback/:openid\<close>

definition NO_RESULT_TEXT :: jsstr where
  "NO_RESULT_TEXT = units [9989] @ js '' ''
     @ units [20219, 21153, 24050, 23436, 25104, 65288, 26080, 36820, 22238, 20869, 23481, 65289]"

definition FAILED_PREFIX :: jsstr where
  "FAILED_PREFIX = units [10060] @ js '' '' @ units [22788, 29702, 22833, 36133, 65306]"

definition THINKING_INFIX :: jsstr where
  "THINKING_INFIX = units [10, 10, 9201, 65039] @ js '' '' @ units [24605, 32771, 29992, 26102] @ js '': ''"

definition callback_content :: "jsval \<Rightarrow> jsval \<Rightarrow> jsval \<Rightarrow> jsval \<Rightarrow> jsval" where
  "callback_content success result error metadata =
     (let messageContent = (if truthy success then js_or result (StrV NO_RESULT_TEXT)
                            else StrV (FAILED_PREFIX @ to_str (js_or error (StrV UNKNOWN_ERROR))));
          ms = opt_prop metadata ''thinking_time_ms''
      in if truthy ms
         then js_add messageContent (StrV (THINKING_INFIX @ thinking_seconds (to_num ms) @ js ''s''))
         else messageContent)"

definition json_reply :: "nat \<Rightarrow> jsval \<Rightarrow> reply" where
  "json_reply code body = \<lparr>rp_code = code, rp_type = Some (js ''application/json; charset=utf-8''), rp_body = body\<rparr>"

definition callback_sent :: reply where
  "callback_sent = json_reply 200 (obj [(''ok'', BoolV True)])"

definition callback_not_sent :: reply where
  "callback_not_sent =
     json_reply 500 (obj [(''ok'', BoolV False), (''error'', str_val ''Failed to send WeChat message'')])"

definition postCallback :: "config \<Rightarrow> nat \<Rightarrow> jsstr \<Rightarrow> jsval \<Rightarrow> reply act" where
  "postCallback cfg fuel openid body =
     await (lift_sum (get_prop body ''success'')) (\<lambda>success.
     await (lift_sum (get_prop body ''result'')) (\<lambda>result.
     await (lift_sum (get_prop body ''error'')) (\<lambda>error.
     await (lift_sum (get_prop body ''metadata'')) (\<lambda>metadata.
     await (getVMBinding (StrV openid)) (\<lambda>binding.
     await (sendTextMessage cfg fuel (StrV openid) (callback_content success result error metadata)) (\<lambda>sent.
     Return (if sent then callback_sent else callback_not_sent)))))))"

section \<open>POST /callback/:openid/stream\<close>

definition postCallbackStream :: "config \<Rightarrow> nat \<Rightarrow> jsstr \<Rightarrow> jsval \<Rightarrow> reply act" where
  "postCallbackStream cfg fuel openid body =
     await (lift_sum (get_prop body ''chunk'')) (\<lambda>chunk.
     await (lift_sum (get_prop body ''done'')) (\<lambda>done'.
     if truthy done'
     then await (sendTextMessage cfg fuel (StrV openid) chunk) (\<lambda>sent.
          Return (json_reply 200 (obj [(''ok'', BoolV sent)])))
     else Return (json_reply 200 (obj [(''ok'', BoolV True), (''buffered'', BoolV True)]))))"

section \<open>Lemmas\<close>

text \<open>A callback reads the binding of its user, sends to him, and changes no binding.\<close>

definition callback_req :: "config \<Rightarrow> jsstr \<Rightarrow> req \<Rightarrow> bool" where
  "callback_req cfg openid r \<longleftrightarrow> r = RedisGet (binding_key (StrV openid)) \<or> message_req cfg (to_user (StrV openid)) r"

lemma requests_callback_send: "requests (callback_req cfg u) (sendTextMessage cfg n (StrV u) v)"
  by (rule safe_mono, rule requests_sendTextMessage [where M = "to_user (StrV u)"])
    (auto simp: to_user_def text_message_def js_simps callback_req_def)

lemma requests_postCallback: "requests (callback_req cfg u) (postCallback cfg n u body)"
  unfolding postCallback_def
  by (intro safe_intros requests_callback_send requests_getVMBinding) (simp_all add: callback_req_def)

lemma requests_postCallbackStream: "requests (callback_req cfg u) (postCallbackStream cfg n u body)"
  unfolding postCallbackStream_def
  by (auto intro!: safe_intros requests_callback_send)

text \<open>A text result: the user gets exactly the numbered pieces of the text, or the agent gets a 500.\<close>

lemma accepted_get [simp]: "accepted (transcript sv (getVMBinding u) w) = []"
  by (rule accepted_no_post) (rule requests_getVMBinding, simp)

lemma postCallback_delivers:
  assumes "get_prop body ''success'' = Inr success" "get_prop body ''result'' = Inr result"
    "get_prop body ''error'' = Inr error" "get_prop body ''metadata'' = Inr metadata"
    and "callback_content success result error metadata = StrV text"
    and "run sv (postCallback cfg n u body) w = (Returned r, w')"
  shows "let got = accepted (transcript sv (postCallback cfg n u body) w);
      want = map (\<lambda>t. text_message (StrV u) (StrV t)) (message_texts text)
    in r = (if got = want then callback_sent else callback_not_sent) \<and> subseq got want"
proof -
  have m: "postCallback cfg n u body = await (getVMBinding (StrV u)) (\<lambda>_.
      await (sendTextMessage cfg n (StrV u) (StrV text)) (\<lambda>sent.
      Return (if sent then callback_sent else callback_not_sent)))"
    using assms(1-5) by (simp add: postCallback_def)
  obtain r1 w1 where 1: "run sv (getVMBinding (StrV u)) w = (r1, w1)" by fastforce
  obtain r2 w2 where 2: "run sv (sendTextMessage cfg n (StrV u) (StrV text)) w1 = (r2, w2)" by fastforce
  from assms(6) 1 2 obtain b x where b: "r1 = Returned x" "r2 = Returned b"
      "r = (if b then callback_sent else callback_not_sent)"
    unfolding m by (cases r1; cases r2) (auto simp: act_simps)
  have "accepted (transcript sv (getVMBinding (StrV u)) w) = []"
    by (rule accepted_no_post) (rule requests_getVMBinding, simp add: is_post_def)
  with sendTextMessage_accepted [OF 2 [unfolded b(2)]] 1 2 b show ?thesis
    unfolding m by (simp add: act_simps Let_def)
qed

end
