(* ===== verification/App.thy ===== *)
theory App
  imports CallbackRoutes
begin

text \<open>
  \<open>app.ts\<close>: the health check, the XML body parser, the table of routes and the error handler.  Matching
  a path and parsing other content types is Fastify's; a request that matches no route is left to it.
\<close>

section \<open>Dates\<close>

text \<open>\<open>new Date(t).toISOString()\<close>: the civil date of a day number, then fixed-width fields.\<close>

definition civil_date :: "int \<Rightarrow> int \<times> int \<times> int" where
  "civil_date days =
     (let z = days + 719468; era = z div 146097; doe = z mod 146097;
          yoe = (doe - doe div 1460 + doe div 36524 - doe div 146096) div 365;
          doy = doe - (365 * yoe + yoe div 4 - yoe div 100);
          mp = (5 * doy + 2) div 153;
          d = doy - (153 * mp + 2) div 5 + 1;
          m = (if mp < 10 then mp + 3 else mp - 9)
      in (yoe + era * 400 + (if m \<le> 2 then 1 else 0), m, d))"

definition pad_digits :: "nat \<Rightarrow> int \<Rightarrow> jsstr" where
  "pad_digits n x = (let ds = nat_digits (nat x) in replicate (n - length ds) (digit 0) @ ds)"

definition iso_string :: "int \<Rightarrow> jsstr" where
  "iso_string t =
     (let ms = t mod 1000; secs = t div 1000; s = secs mod 86400; (y, m, d) = civil_date (secs div 86400);
          year = (if 0 \<le> y \<and> y \<le> 9999 then pad_digits 4 y
                  else (if y < 0 then js ''-'' else js ''+'') @ pad_digits 6 \<bar>y\<bar>)
      in year @ js ''-'' @ pad_digits 2 m @ js ''-'' @ pad_digits 2 d @ js ''T'' @ pad_digits 2 (s div 3600)
         @ js '':'' @ pad_digits 2 (s div 60 mod 60) @ js '':'' @ pad_digits 2 (s mod 60) @ js ''.''
         @ pad_digits 3 ms @ js ''Z'')"

section \<open>The application\<close>

record http_request =
  hr_method :: http_method
  hr_path :: "jsstr list"
  hr_query :: wechat_query
  hr_body :: jsval

text \<open>The parser registered for \<open>text/xml\<close> and \<open>application/xml\<close>: the body stays a string.\<close>

definition parseXmlBody :: "jsstr \<Rightarrow> jsval" where
  "parseXmlBody body = StrV body"

definition health :: "reply act" where
  "health = await date_now (\<lambda>t.
     Return (json_reply 200 (obj [(''status'', str_val ''ok''), (''timestamp'', StrV (iso_string t))])))"

definition dispatch :: "library \<Rightarrow> config \<Rightarrow> nat \<Rightarrow> http_request \<Rightarrow> reply act option" where
  "dispatch lib cfg fuel r =
     (case (hr_method r, hr_path r) of
        (GET, [p]) \<Rightarrow>
          if p = js ''health'' then Some health
          else if p = js ''wechat'' then Some (Return (getWechat cfg (hr_query r))) else None
      | (POST, [p]) \<Rightarrow> if p = js ''wechat'' then Some (postWechat lib cfg (hr_query r) (hr_body r)) else None
      | (POST, [p, openid]) \<Rightarrow>
          if p = js ''callback'' then Some (postCallback cfg fuel openid (hr_body r)) else None
      | (POST, [p, openid, q]) \<Rightarrow>
          if p = js ''callback'' \<and> q = js ''stream''
          then Some (postCallbackStream cfg fuel openid (hr_body r)) else None
      | _ \<Rightarrow> None)"

text \<open>The error handler: the message of the error is sent in development only.\<close>

definition isDevelopment :: "environment \<Rightarrow> bool" where
  "isDevelopment env \<longleftrightarrow> env ''NODE_ENV'' = Some (js ''development'')"

fun error_message_prop :: "jserr \<Rightarrow> jsval" where
  "error_message_prop (ErrorObj k msg st) = StrV msg"
| "error_message_prop (ThrownValue s) = Undef"

definition errorReply :: "environment \<Rightarrow> jserr \<Rightarrow> reply" where
  "errorReply env e =
     json_reply 500 (obj [(''error'', str_val ''Internal Server Error''),
       (''message'', if isDevelopment env then error_message_prop e else Undef)])"

definition handleRequest :: "library \<Rightarrow> environment \<Rightarrow> config \<Rightarrow> nat \<Rightarrow> http_request \<Rightarrow> reply act option" where
  "handleRequest lib env cfg fuel r =
     map_option (\<lambda>m. try_catch m (\<lambda>e. Return (errorReply env e))) (dispatch lib cfg fuel r)"

section \<open>Lemmas\<close>

lemma no_throw_handleRequest: "handleRequest lib env cfg n r = Some m \<Longrightarrow> no_throw m"
  by (auto simp: handleRequest_def intro!: safe_try_catch [where F = "\<lambda>_. True"])

lemma digits_length: "n < 10 ^ k \<Longrightarrow> 0 < k \<Longrightarrow> length (nat_digits n) \<le> k"
proof (induction n arbitrary: k rule: nat_digits.induct)
  case (1 n)
  show ?case
  proof (cases "n < 10")
    case False
    then obtain j where k: "k = Suc j" "0 < j" using 1 by (cases k; cases "k - 1") auto
    then have "n div 10 < 10 ^ j" using 1 by auto
    with 1 False k show ?thesis by (subst nat_digits.simps) auto
  qed (use 1 in \<open>subst nat_digits.simps, simp\<close>)
qed

lemma length_pad_digits: "x < 10 ^ n \<Longrightarrow> 0 < n \<Longrightarrow> length (pad_digits n x) = n"
  using digits_length [of "nat x" n] by (cases "0 \<le> x") (auto simp: pad_digits_def Let_def nat_less_iff nat_power_eq)

section \<open>Status codes\<close>

text \<open>Every reply of the application has one of four status codes.\<close>

definition app_code :: "nat \<Rightarrow> bool" where
  "app_code c \<longleftrightarrow> c \<in> {200, 400, 403, 500}"

abbreviation coded :: "reply act \<Rightarrow> bool" where
  "coded m \<equiv> safe (\<lambda>_. True) (\<lambda>r. app_code (rp_code r)) (\<lambda>_. True) m"

lemma coded_await: "(\<And>x. coded (f x)) \<Longrightarrow> coded (await m f)"
  by (rule safe_await [where R = "\<lambda>_. True"]) simp_all

lemma coded_try: "coded m \<Longrightarrow> (\<And>e. coded (h e)) \<Longrightarrow> coded (try_catch m h)"
  by (rule safe_try_catch [where F = "\<lambda>_. True"])

lemma app_code_simps [simp]:
  "app_code 200" "app_code 400" "app_code 403" "app_code 500"
  "rp_code (plain_reply c s) = c" "rp_code (typed_reply ty b) = 200" "rp_code (json_reply c v) = c"
  by (simp_all add: app_code_def plain_reply_def typed_reply_def json_reply_def)

lemma coded_sendReply: "coded (sendReply cfg enc x)"
  unfolding sendReply_def by (auto simp: Let_def intro!: coded_await)

lemma coded_say: "coded (say lib (sendReply cfg enc) u v c)"
  unfolding say_def by (intro coded_await coded_sendReply)

lemma coded_handlers:
  "coded (handleNewUser lib (sendReply cfg enc) u v)"
  "coded (handleStatusCommand lib cfg (sendReply cfg enc) u v)"
  "coded (handleRestartCommand lib (sendReply cfg enc) u v)"
  "coded (handleStopCommand lib cfg (sendReply cfg enc) u v)"
  "coded (handleDestroyCommand lib cfg (sendReply cfg enc) u v)"
  "coded (handlePasswdCommand lib cfg (sendReply cfg enc) u v pw)"
  unfolding handleNewUser_def handleStatusCommand_def handleRestartCommand_def handleStopCommand_def
    handleDestroyCommand_def handlePasswdCommand_def
  by (auto intro!: coded_await coded_try coded_say)

lemma coded_routeMessage: "coded (routeMessage lib cfg (sendReply cfg enc) m u v)"
  unfolding routeMessage_def by (auto intro!: coded_await coded_say coded_handlers)

lemma coded_runCommand: "runCommand lib cfg (sendReply cfg enc) u v c = Some m \<Longrightarrow> coded m"
  unfolding runCommand_def by (auto intro: coded_say coded_handlers split: if_splits option.splits)

lemma coded_handleMessage: "coded (handleMessage lib cfg (sendReply cfg enc) m)"
  unfolding handleMessage_def
  by (intro coded_await) (auto intro!: coded_await coded_handlers coded_routeMessage split: option.split dest: coded_runCommand)

lemma early_code: "readMessage lib cfg q body = Inr (Inl r) \<Longrightarrow> app_code (rp_code r)"
  by (auto simp: readMessage_def Let_def split: if_splits)

lemma coded_dispatch: "dispatch lib cfg n r = Some m \<Longrightarrow> coded m"
proof -
  have w: "coded (postWechat lib cfg q b)" for q b
    by (auto simp: postWechat_def early_code intro: coded_handleMessage split: sum.split)
  have g: "app_code (rp_code (getWechat cfg q))" for q by (simp add: getWechat_def Let_def)
  have c: "coded (postCallback cfg n u b)" "coded (postCallbackStream cfg n u b)" "coded health" for u b
    unfolding postCallback_def postCallbackStream_def health_def
    by (auto simp: callback_sent_def callback_not_sent_def intro!: coded_await)
  assume "dispatch lib cfg n r = Some m"
  then show ?thesis
    using w c g by (auto simp: dispatch_def split: http_method.splits list.splits if_splits)
qed

lemma coded_handleRequest: "handleRequest lib env cfg n r = Some m \<Longrightarrow> coded m"
  by (auto simp: handleRequest_def errorReply_def intro!: coded_try [OF coded_dispatch])

end
