(* ===== verification/RouteSpec.thy ===== *)
theory RouteSpec
  imports WechatRoutes Keyspace
begin

text \<open>
  What \<open>routes/wechat.ts\<close> promises, stated over the status of the user's VM only, and that the handlers
  implement it.  The handlers are run against the reference world of \<open>Keyspace\<close>, in the plain mode of
  the interface: each is given as the reply it sends and the world it leaves, on every branch.  What the
  orchestrator itself writes during an exchange is part of that world.
\<close>

section \<open>The abstract machine\<close>

text \<open>The state of a user: no VM, one of the four statuses, or an entry with some other status.\<close>

datatype vm_state = NoVM | Has vm_status | Strange

definition abs_state :: "jsval \<Rightarrow> vm_state" where
  "abs_state binding =
     (if \<not> truthy binding then NoVM
      else let s = opt_prop binding ''status''
           in if s = str_val ''provisioning'' then Has Provisioning
              else if s = str_val ''running'' then Has Running
              else if s = str_val ''stopped'' then Has Stopped
              else if s = str_val ''error'' then Has ErrorStatus
              else Strange)"

text \<open>What an ordinary message does to the state, and the task it starts.\<close>

fun route_state :: "vm_state \<Rightarrow> vm_state" where
  "route_state NoVM = Has Provisioning"
| "route_state (Has Stopped) = Has Provisioning"
| "route_state s = s"

fun route_tasks :: "jsval \<Rightarrow> jsval \<Rightarrow> jsval \<Rightarrow> vm_state \<Rightarrow> task list" where
  "route_tasks u m b NoVM = [ProvisionTask u]"
| "route_tasks u m b (Has Stopped) = [RestartTask u]"
| "route_tasks u m b (Has Running) = [ForwardTask m b]"
| "route_tasks u m b s = []"

fun route_text :: "jsval \<Rightarrow> vm_state \<Rightarrow> jsstr" where
  "route_text b NoVM = WELCOME_TEXT"
| "route_text b (Has Provisioning) = PROVISIONING_TEXT"
| "route_text b (Has Running) = PROCESSING_TEXT"
| "route_text b (Has Stopped) = RESTARTING_TEXT"
| "route_text b (Has ErrorStatus) = ERROR_TEXT (opt_prop b ''errorMessage'')"
| "route_text b Strange = UNKNOWN_STATUS_TEXT"

section \<open>Worlds the program leaves behind\<close>

text \<open>
  An entry is absent or a printable object without a time to live, and the clock shows a date
  JavaScript can.
\<close>

definition entry_ok :: "jsval \<Rightarrow> bool" where
  "entry_ok b \<longleftrightarrow> b = Null \<or> (\<exists>kvs. b = ObjV kvs \<and> json_ok b)"

definition world_ok :: "keyspace \<Rightarrow> bool" where
  "world_ok w \<longleftrightarrow> \<bar>ks_clock w\<bar> < 10 ^ 21 \<and> (\<forall>u. entry_ok (ks_binding w u))
     \<and> (\<forall>u v t. ks_map w (binding_key u) \<noteq> Some (v, Some t))"

lemma entry_ok_binding_val:
  assumes "json_ok ip" "json_ok url" "\<bar>c\<bar> < 10 ^ 21" "\<bar>a\<bar> < 10 ^ 21"
  shows "json_ok (binding_val (vm_binding_of ip url s c a))"
  by (rule json_ok_binding_val) (use assms in \<open>simp_all add: vm_binding_of_def\<close>)

lemma binding_val_ObjV: "\<exists>kvs. binding_val b = ObjV kvs"
  by (simp add: binding_val_def obj_def)

lemma opt_prop_get: "get_prop v k = Inr x \<Longrightarrow> opt_prop v k = x"
  by (cases v) (simp_all add: opt_prop_def)

lemma truthy_get_prop: "truthy v \<Longrightarrow> get_prop v k = Inr (opt_prop v k)"
  by (cases v) (simp_all add: opt_prop_def)

lemma abs_state_status:
  "truthy b \<Longrightarrow> opt_prop b ''status'' = StrV (status_str s) \<Longrightarrow> abs_state b = Has s"
  by (cases s) (simp_all add: abs_state_def js_inj Let_def)

lemma abs_state_binding_val [simp]: "abs_state (binding_val b) = Has (vb_status b)"
  by (rule abs_state_status) (simp_all add: opt_prop_get [OF get_prop_binding_val(3)])

lemma abs_state_cases:
  "abs_state b = NoVM \<longleftrightarrow> \<not> truthy b"
  "abs_state b = Has s \<longleftrightarrow> truthy b \<and> opt_prop b ''status'' = StrV (status_str s)"
  by (cases s; auto simp: abs_state_def js_inj Let_def)+

text \<open>Touching a stored entry gives a printable entry with the new status.\<close>

lemma touch_entry:
  assumes "entry_ok b" "truthy b" "\<bar>t\<bar> < 10 ^ 21" "fs = None \<or> fs = Some (error_fields e)"
  obtains b' where "touch_binding b s t fs = Inr b'" "json_ok b'" "entry_ok b'" "truthy b'"
    "opt_prop b' ''status'' = StrV (status_str s)"
    "\<And>k. k \<notin> {''status'', ''lastActiveAt'', ''errorMessage''} \<Longrightarrow> opt_prop b' k = opt_prop b k"
    "fs = Some (error_fields e) \<Longrightarrow> opt_prop b' ''errorMessage'' = StrV (err_message e)"
proof -
  obtain kvs where b: "b = ObjV kvs" "json_ok (ObjV kvs)" using assms(1,2) by (auto simp: entry_ok_def)
  obtain b' where t: "touch_binding (ObjV kvs) s t fs = Inr b'"
    using assms(4) by (auto simp: touch_binding_obj touch_binding_obj_extra error_fields_def)
  have ok: "json_ok b' \<and> (\<exists>kvs'. b' = ObjV kvs')"
    by (rule touch_binding_json_ok [OF b(2) assms(3) _ t]) (use assms(4) in \<open>auto simp: error_fields_def\<close>)
  show thesis
    by (rule that [of b'])
      (use t ok b(1) assms(4) in \<open>auto simp: entry_ok_def opt_prop_def touch_binding_obj touch_binding_obj_extra
        error_fields_def obj_get_put js_inj\<close>)
qed

lemma run_update_entry:
  assumes "world_ok w" "truthy (ks_binding w u)" "fs = None \<or> fs = Some (error_fields e)"
  obtains b where "run ref_service (updateVMBindingStatus u s fs) w = (Returned (), ks_bind w u b)"
    "json_ok b" "entry_ok b" "truthy b" "opt_prop b ''status'' = StrV (status_str s)"
    "\<And>k. k \<notin> {''status'', ''lastActiveAt'', ''errorMessage''} \<Longrightarrow> opt_prop b k = opt_prop (ks_binding w u) k"
    "fs = Some (error_fields e) \<Longrightarrow> opt_prop b ''errorMessage'' = StrV (err_message e)"
proof -
  have "entry_ok (ks_binding w u)" "\<bar>ks_clock w\<bar> < 10 ^ 21" using assms(1) by (auto simp: world_ok_def)
  then obtain b where b: "touch_binding (ks_binding w u) s (ks_clock w) fs = Inr b" "json_ok b" "entry_ok b" "truthy b"
      "opt_prop b ''status'' = StrV (status_str s)"
      "\<And>k. k \<notin> {''status'', ''lastActiveAt'', ''errorMessage''} \<Longrightarrow> opt_prop b k = opt_prop (ks_binding w u) k"
      "fs = Some (error_fields e) \<Longrightarrow> opt_prop b ''errorMessage'' = StrV (err_message e)"
    by (rule touch_entry [OF _ assms(2) _ assms(3), of _ s]) auto
  then have "run ref_service (updateVMBindingStatus u s fs) w = (Returned (), ks_bind w u b)"
    using assms(2) by (simp add: ref_run_update)
  from that [OF this b(2-)] show thesis .
qed

lemma ks_map_simps [simp]:
  "ks_map (ks_bind w u b) = (ks_map w)(binding_key u := Some (stringify b, None))"
  "ks_map (ks_unbind w u) = (ks_map w)(binding_key u := None)"
  by (simp_all add: ks_bind_def ks_store_def ks_unbind_def)

lemma world_ok_bind: "world_ok w \<Longrightarrow> json_ok b \<Longrightarrow> entry_ok b \<Longrightarrow> world_ok (ks_bind w u b)"
  by (auto simp: world_ok_def ks_binding_bind)

lemma world_ok_frame [simp]: "world_ok (w\<lparr>ks_tasks := ts\<rparr>) = world_ok w" "world_ok (w\<lparr>ks_sent := qs\<rparr>) = world_ok w"
  by (simp_all add: world_ok_def ks_binding_def)

lemma world_ok_unbind: "world_ok w \<Longrightarrow> world_ok (ks_unbind w u)"
  by (auto simp: world_ok_def ks_binding_unbind entry_ok_def)

section \<open>What the orchestrator writes\<close>

text \<open>The requests of the bridge that make the orchestrator work for a user.\<close>

definition create_request :: "config \<Rightarrow> jsval \<Rightarrow> http_req" where
  "create_request cfg u = api_request cfg POST (js ''/api/v1/vms'') (Some (obj [(''user_id'', u)]))"

definition start_request :: "config \<Rightarrow> jsval \<Rightarrow> http_req" where
  "start_request cfg u = api_request cfg POST (vm_path u @ js ''/start'') None"

definition stop_request :: "config \<Rightarrow> jsval \<Rightarrow> http_req" where
  "stop_request cfg u = api_request cfg POST (vm_path u @ js ''/stop'') None"

definition destroy_request :: "config \<Rightarrow> jsval \<Rightarrow> http_req" where
  "destroy_request cfg u = api_request cfg DELETE (vm_path u) None"

definition passwd_request :: "config \<Rightarrow> jsval \<Rightarrow> jsstr \<Rightarrow> http_req" where
  "passwd_request cfg u pw =
     api_request cfg POST (vm_path u @ js ''/passwd'') (Some (obj [(''new_password'', StrV pw)]))"

definition vm_exchange :: "config \<Rightarrow> jsval \<Rightarrow> http_req \<Rightarrow> bool" where
  "vm_exchange cfg u q \<longleftrightarrow> q \<in> {create_request cfg u, start_request cfg u, stop_request cfg u, destroy_request cfg u}
     \<or> (\<exists>pw. q = passwd_request cfg u pw)"

lemma vm_exchange_simps [simp]:
  "vm_exchange cfg u (create_request cfg u)" "vm_exchange cfg u (start_request cfg u)" "vm_exchange cfg u (stop_request cfg u)"
  "vm_exchange cfg u (destroy_request cfg u)" "vm_exchange cfg u (passwd_request cfg u pw)"
  by (auto simp: vm_exchange_def)

text \<open>No request to another address or with another timeout is one of them.\<close>

lemma vm_exchange_shape:
  "vm_exchange cfg u q \<Longrightarrow> rq_timeout q = Some (vm_ready_timeout cfg) \<and> rq_method q \<noteq> GET
     \<and> (\<forall>b. rq_body q = Some b \<longrightarrow> (\<exists>x. b = obj [(''user_id'', x)] \<or> b = obj [(''new_password'', x)]))"
  by (auto simp: vm_exchange_def create_request_def start_request_def stop_request_def destroy_request_def
      passwd_request_def api_request_def)

text \<open>
  \<open>saveVMInfo\<close> of the orchestrator stores its \<open>VMInfo\<close> as JSON: an object with one of the four statuses.
  It writes during an exchange, under the key of the user the request is about, or deletes that entry.
  When it stops a VM or changes a password it saves what it has read from the store; an entry of the bridge has no
  \<open>user_id\<close>, so it then saves under the key of the empty id.
\<close>

definition orch_entry :: "jsstr \<Rightarrow> bool" where
  "orch_entry s \<longleftrightarrow> (\<exists>kvs st. json_parse s = Inr (ObjV kvs) \<and> json_ok (ObjV kvs)
     \<and> opt_prop (ObjV kvs) ''status'' = StrV (status_str st))"

definition orch_ok :: "config \<Rightarrow> keyspace \<Rightarrow> bool" where
  "orch_ok cfg w \<longleftrightarrow> (\<forall>n q x e. (x, e) \<in> set (ks_orch w n q) \<longrightarrow>
     (\<exists>u. vm_exchange cfg u q)
     \<and> (\<forall>u. vm_exchange cfg u q \<longrightarrow> x = to_str u \<or> x = [] \<and> q \<notin> {create_request cfg u, start_request cfg u})
     \<and> (\<forall>s. e = Some s \<longrightarrow> orch_entry s))"

lemma orch_ok_simps [simp]:
  "orch_ok cfg (ks_next w q) = orch_ok cfg w" "orch_ok cfg (ks_bind w u b) = orch_ok cfg w"
  "orch_ok cfg (ks_unbind w u) = orch_ok cfg w" "orch_ok cfg (w\<lparr>ks_tasks := ts\<rparr>) = orch_ok cfg w"
  by (simp_all add: orch_ok_def)

lemma orch_ok_silent:
  "orch_ok cfg w \<Longrightarrow> (\<And>u. \<not> vm_exchange cfg u q) \<Longrightarrow> ks_next w q = w\<lparr>ks_sent := ks_sent w @ [q]\<rparr>"
proof (rule ks_next_silent)
  assume o: "orch_ok cfg w" and n: "\<And>u. \<not> vm_exchange cfg u q"
  show "ks_orch w (length (ks_sent w)) q = []"
  proof (cases "ks_orch w (length (ks_sent w)) q")
    case (Cons a ws)
    then have "(fst a, snd a) \<in> set (ks_orch w (length (ks_sent w)) q)" by simp
    with o n show ?thesis unfolding orch_ok_def by blast
  qed
qed

text \<open>One slot of the store: absent, or printable, without a time to live, and with a status that satisfies \<open>S\<close>.\<close>

fun slot_ok :: "(vm_state \<Rightarrow> bool) \<Rightarrow> (jsstr \<times> int option) option \<Rightarrow> bool" where
  "slot_ok S None \<longleftrightarrow> S NoVM"
| "slot_ok S (Some (v, t)) \<longleftrightarrow> t = None \<and> entry_ok (decode_binding (Some v)) \<and> S (abs_state (decode_binding (Some v)))"

lemma abs_state_Null [simp]: "abs_state Null = NoVM"
  by (simp add: abs_state_def)

lemma decode_None [simp]: "decode_binding None = Null"
  by (simp add: decode_binding_def)

lemma ks_binding_slot:
  "ks_binding w u = (case ks_map w (binding_key u) of Some (v, t) \<Rightarrow>
     decode_binding (case t of None \<Rightarrow> Some v | Some t \<Rightarrow> if ks_clock w < t then Some v else None) | None \<Rightarrow> Null)"
  by (simp add: ks_binding_def ks_live_def split: option.splits)

lemma slot_okI:
  assumes "world_ok w" "S (abs_state (ks_binding w u))"
  shows "slot_ok S (ks_map w (binding_key u))"
proof (cases "ks_map w (binding_key u)")
  case (Some p)
  obtain v t where p: "p = (v, t)" by fastforce
  with Some assms(1) have "t = None" by (cases t) (auto simp: world_ok_def)
  with p Some assms show ?thesis by (auto simp: ks_binding_slot world_ok_def dest: spec [of _ u])
qed (use assms in \<open>simp add: ks_binding_slot\<close>)

lemma slot_okD:
  assumes "slot_ok S (ks_map w (binding_key u))"
  shows "entry_ok (ks_binding w u)" "S (abs_state (ks_binding w u))" "ks_map w (binding_key u) \<noteq> Some (v, Some t)"
  using assms by (cases "ks_map w (binding_key u)"; auto simp: ks_binding_slot entry_ok_def)+

lemma orch_entry_slot:
  assumes "orch_entry s" "\<And>st. S (Has st)"
  shows "slot_ok S (Some (s, None))"
proof -
  obtain kvs st where k: "json_parse s = Inr (ObjV kvs)" "json_ok (ObjV kvs)" "opt_prop (ObjV kvs) ''status'' = StrV (status_str st)"
    using assms(1) by (auto simp: orch_entry_def)
  moreover from k(1) have "s \<noteq> []" by (auto simp: json_parse_def skip_ws_def)
  ultimately have "decode_binding (Some s) = ObjV kvs" by (simp add: decode_binding_def)
  with k assms(2) abs_state_status [of "ObjV kvs" st] show ?thesis by (auto simp: entry_ok_def)
qed

lemma orch_writes_slot:
  assumes "\<And>x s. (x, Some s) \<in> set ws \<Longrightarrow> orch_entry s" "\<And>st. S (Has st)" "S NoVM" "slot_ok S (m k)"
  shows "slot_ok S (fold orch_write ws m k)"
  using assms(1,4)
proof (induction ws arbitrary: m)
  case (Cons a ws)
  obtain x e where a: "a = (x, e)" by fastforce
  have "slot_ok S (map_option (\<lambda>s. (s, None)) e)"
    using Cons.prems(1) [of x] assms(2,3) orch_entry_slot [of _ S] by (cases e) (auto simp: a simp del: slot_ok.simps(2))
  with Cons.prems(2) have "slot_ok S (orch_write a m k)" by (simp add: a)
  then have "slot_ok S (fold orch_write ws (orch_write a m) k)"
    by (rule Cons.IH [rotated]) (use Cons.prems(1) in auto)
  then show ?case by simp
qed simp

lemma next_slot:
  assumes "orch_ok cfg w" "\<And>st. S (Has st)" "S NoVM" "slot_ok S (ks_map w k)"
  shows "slot_ok S (ks_map (ks_next w q) k)"
  unfolding ks_next_def using assms orch_writes_slot [of "ks_orch w (length (ks_sent w)) q" S "ks_map w" k]
  by (auto simp: orch_ok_def)

lemma world_ok_next: "world_ok w \<Longrightarrow> orch_ok cfg w \<Longrightarrow> world_ok (ks_next w q)"
proof -
  assume w: "world_ok w" and o: "orch_ok cfg w"
  have "slot_ok (\<lambda>_. True) (ks_map (ks_next w q) (binding_key u))" for u
    by (rule next_slot [OF o]) (simp_all add: slot_okI [OF w])
  from slot_okD(1,3) [OF this] w show ?thesis by (simp add: world_ok_def)
qed

section \<open>The handlers, run\<close>

definition plain_answer :: "library \<Rightarrow> jsval \<Rightarrow> jsval \<Rightarrow> int \<Rightarrow> jsstr \<Rightarrow> reply" where
  "plain_answer lib u v t content =
     typed_reply ''text/xml'' (buildWeChatReply lib (text_reply u v (t div 1000) content))"

lemma run_say [simp]:
  "run ref_service (say lib (sendReply cfg False) u v c) w = (Returned (plain_answer lib u v (ks_clock w) c), w)"
  by (simp add: say_def sendReply_def buildTextReply_def act_simps plain_answer_def)

lemma run_handleNewUser:
  "run ref_service (handleNewUser lib (sendReply cfg False) u v) w =
     (Returned (plain_answer lib u v (ks_clock w) WELCOME_TEXT),
      (ks_bind w u (binding_val (initial_binding (ks_clock w) (ks_clock w))))\<lparr>ks_tasks := ks_tasks w @ [ProvisionTask u]\<rparr>)"
  by (simp add: handleNewUser_def act_simps)

lemma run_handleRestartCommand:
  assumes "run ref_service (updateVMBindingStatus u Provisioning None) w = (Returned (), w1)"
  shows "run ref_service (handleRestartCommand lib (sendReply cfg False) u v) w =
     (Returned (plain_answer lib u v (ks_clock w1) RESTARTING_TEXT), w1\<lparr>ks_tasks := ks_tasks w1 @ [RestartTask u]\<rparr>)"
  using assms by (simp add: handleRestartCommand_def act_simps)

lemma run_handleStatusCommand:
  "run ref_service (handleStatusCommand lib cfg (sendReply cfg False) u v) w =
     (Returned (plain_answer lib u v (ks_clock w)
        (if truthy (ks_binding w u)
         then STATUS_TEXT cfg u (opt_prop (ks_binding w u) ''status'') (opt_prop (ks_binding w u) ''vmIp'')
                (lib_date lib (opt_prop (ks_binding w u) ''createdAt''))
         else NO_VM_TEXT)), w)"
  by (simp add: handleStatusCommand_def act_simps truthy_get_prop)

section \<open>Routing implements the abstract machine\<close>

definition same_others :: "jsval \<Rightarrow> keyspace \<Rightarrow> keyspace \<Rightarrow> bool" where
  "same_others u w w' \<longleftrightarrow> (\<forall>v. to_str v \<noteq> to_str u \<longrightarrow> ks_binding w' v = ks_binding w v)"

lemma same_others_simps [simp]:
  "same_others u w w" "same_others u w (ks_bind w' u b) = same_others u w w'"
  "same_others u w (ks_unbind w' u) = same_others u w w'"
  "same_others u w (w'\<lparr>ks_tasks := ts\<rparr>) = same_others u w w'"
  by (simp_all add: same_others_def ks_binding_bind_other ks_binding_unbind)

lemma same_others_trans: "same_others u w w1 \<Longrightarrow> same_others u w1 w2 \<Longrightarrow> same_others u w w2"
  by (simp add: same_others_def)

text \<open>The same for the users proper, whose id is not empty.\<close>

definition same_users :: "jsval \<Rightarrow> keyspace \<Rightarrow> keyspace \<Rightarrow> bool" where
  "same_users u w w' \<longleftrightarrow> (\<forall>v. to_str v \<notin> {to_str u, []} \<longrightarrow> ks_binding w' v = ks_binding w v)"

lemma same_users_simps [simp]:
  "same_users u w w" "same_users u w (ks_bind w' u b) = same_users u w w'"
  "same_users u w (ks_unbind w' u) = same_users u w w'"
  "same_users u w (w'\<lparr>ks_tasks := ts\<rparr>) = same_users u w w'"
  by (simp_all add: same_users_def ks_binding_bind_other ks_binding_unbind)

lemma same_others_users [simp]: "same_others u w w' \<Longrightarrow> same_users u w w'"
  by (simp add: same_others_def same_users_def)

lemma binding_next_other:
  assumes "\<And>x e. (x, e) \<in> set (ks_orch w (length (ks_sent w)) q) \<Longrightarrow> x \<noteq> to_str v"
  shows "ks_binding (ks_next w q) v = ks_binding w v"
proof -
  have "ks_map (ks_next w q) (binding_key v) = ks_map w (binding_key v)"
    unfolding ks_next_def using assms
    by (simp add: binding_key_def) (metis append_same_eq fold_orch_write_other same_append_eq)
  then show ?thesis by (simp add: ks_binding_slot cong: option.case_cong)
qed

lemma same_others_next:
  assumes "orch_ok cfg w" "q \<in> {create_request cfg u, start_request cfg u}"
  shows "same_others u w (ks_next w q)"
proof -
  have "vm_exchange cfg u q" using assms(2) by auto
  with assms have "(x, e) \<in> set (ks_orch w (length (ks_sent w)) q) \<Longrightarrow> x = to_str u" for x e
    unfolding orch_ok_def by blast
  then show ?thesis unfolding same_others_def by (blast intro: binding_next_other)
qed

lemma same_users_next:
  assumes "orch_ok cfg w" "vm_exchange cfg u q"
  shows "same_users u w (ks_next w q)"
proof -
  from assms have "(x, e) \<in> set (ks_orch w (length (ks_sent w)) q) \<Longrightarrow> x \<in> {to_str u, []}" for x e
    unfolding orch_ok_def by blast
  then show ?thesis unfolding same_users_def by (blast intro: binding_next_other)
qed

lemma ks_binding_bind_same [simp]: "json_ok b \<Longrightarrow> ks_binding (ks_bind w u b) u = b"
  by (simp add: ks_binding_bind)

lemma json_ok_initial: "\<bar>t\<bar> < 10 ^ 21 \<Longrightarrow> json_ok (binding_val (initial_binding t t))"
  unfolding initial_binding_def by (rule entry_ok_binding_val) simp_all

lemma entry_ok_binding: "json_ok (binding_val b) \<Longrightarrow> entry_ok (binding_val b)"
  using binding_val_ObjV [of b] by (auto simp: entry_ok_def)

lemma vb_status_of [simp]: "vb_status (vm_binding_of ip url s c a) = s"
  by (simp add: vm_binding_of_def)

text \<open>The outcome of a handler for the state \<open>s\<close> it leaves, the tasks it starts, the HTTP
  requests it makes and its reply; \<open>same\<close> says what it leaves alone.\<close>

definition outcome_of :: "(jsval \<Rightarrow> keyspace \<Rightarrow> keyspace \<Rightarrow> bool) \<Rightarrow> library \<Rightarrow> jsval \<Rightarrow> jsval \<Rightarrow> keyspace \<Rightarrow> reply act \<Rightarrow> vm_state
    \<Rightarrow> task list \<Rightarrow> http_req list \<Rightarrow> jsstr \<Rightarrow> bool" where
  "outcome_of same lib u v w m s ts qs text \<longleftrightarrow>
     (case run ref_service m w of
        (Returned r, w') \<Rightarrow> r = plain_answer lib u v (ks_clock w) text \<and> abs_state (ks_binding w' u) = s
          \<and> ks_tasks w' = ks_tasks w @ ts \<and> ks_sent w' = ks_sent w @ qs \<and> world_ok w' \<and> same u w w'
      | _ \<Rightarrow> False)"

lemma outcome_NewUser:
  assumes "world_ok w"
  shows "outcome_of same_others lib u v w (handleNewUser lib (sendReply cfg False) u v)
    (Has Provisioning) [ProvisionTask u] [] WELCOME_TEXT"
proof -
  have t: "\<bar>ks_clock w\<bar> < 10 ^ 21" using assms by (simp add: world_ok_def)
  note ok = json_ok_initial [OF t]
  show ?thesis
    using ok world_ok_bind [OF assms ok entry_ok_binding [OF ok]]
    by (simp add: outcome_of_def run_handleNewUser) (simp add: initial_binding_def)
qed

lemma outcome_Restart:
  assumes "world_ok w"
  shows "outcome_of same_others lib u v w (handleRestartCommand lib (sendReply cfg False) u v)
    (if truthy (ks_binding w u) then Has Provisioning else NoVM) [RestartTask u] [] RESTARTING_TEXT"
proof (cases "truthy (ks_binding w u)")
  case True
  obtain b where b: "run ref_service (updateVMBindingStatus u Provisioning None) w = (Returned (), ks_bind w u b)"
    "json_ok b" "entry_ok b" "truthy b" "opt_prop b ''status'' = StrV (status_str Provisioning)"
    by (rule run_update_entry [OF assms True, of None undefined Provisioning]) auto
  then show ?thesis
    using True world_ok_bind [OF assms b(2,3)] abs_state_status [OF b(4,5)]
    by (simp add: outcome_of_def run_handleRestartCommand)
next
  case False
  then show ?thesis
    using assms by (simp add: outcome_of_def run_handleRestartCommand [of _ w w] ref_run_update abs_state_cases(1))
qed

lemma outcome_say:
  "world_ok w \<Longrightarrow> abs_state (ks_binding w u) = s \<Longrightarrow>
     outcome_of same_others lib u v w (say lib (sendReply cfg False) u v text) s [] [] text"
  by (simp add: outcome_of_def)

lemma routeMessage_refines:
  fixes u :: jsval
  assumes "world_ok w"
  defines "b \<equiv> ks_binding w u"
  shows "outcome_of same_others lib u v w (routeMessage lib cfg (sendReply cfg False) m u v)
    (route_state (abs_state b)) (route_tasks u m b (abs_state b)) [] (route_text b (abs_state b))"
proof -
  let ?m = "routeMessage lib cfg (sendReply cfg False) m u v"
  have run: "run ref_service ?m w =
      (if \<not> truthy b then run ref_service (handleNewUser lib (sendReply cfg False) u v) w
       else let status = opt_prop b ''status'' in
         if status = str_val ''provisioning'' then run ref_service (say lib (sendReply cfg False) u v PROVISIONING_TEXT) w
         else if status = str_val ''stopped'' then run ref_service (handleRestartCommand lib (sendReply cfg False) u v) w
         else if status = str_val ''error''
           then run ref_service (say lib (sendReply cfg False) u v (ERROR_TEXT (opt_prop b ''errorMessage''))) w
         else if status = str_val ''running''
           then run ref_service (await (updateVMBindingStatus u Running None) (\<lambda>_.
                await (forwardToClawdbot m b) (\<lambda>_. say lib (sendReply cfg False) u v PROCESSING_TEXT))) w
         else run ref_service (say lib (sendReply cfg False) u v UNKNOWN_STATUS_TEXT) w)"
    by (simp add: routeMessage_def act_simps b_def truthy_get_prop Let_def)
  show ?thesis
  proof (cases "abs_state b")
    case NoVM
    moreover from this have "\<not> truthy b" by (simp add: abs_state_cases(1))
    ultimately show ?thesis using outcome_NewUser [OF assms(1), of lib u v cfg] run by (simp add: outcome_of_def)
  next
    case Strange
    with outcome_say [OF assms(1), of u Strange lib v cfg UNKNOWN_STATUS_TEXT] run show ?thesis
      by (auto simp: abs_state_def outcome_of_def b_def Let_def split: if_splits)
  next
    case (Has s)
    then have b: "truthy b" "opt_prop b ''status'' = StrV (status_str s)" by (auto simp: abs_state_cases(2))
    show ?thesis
    proof (cases s)
      case Running
      obtain b' where b': "run ref_service (updateVMBindingStatus u Running None) w = (Returned (), ks_bind w u b')"
          "json_ok b'" "entry_ok b'" "truthy b'" "opt_prop b' ''status'' = StrV (status_str Running)"
        by (rule run_update_entry [OF assms(1) b(1) [unfolded b_def], of None undefined Running]) auto
      with Has Running run b show ?thesis
        using world_ok_bind [OF assms(1) b'(2,3)] abs_state_status [OF b'(4,5)]
        by (simp add: outcome_of_def act_simps forwardToClawdbot_def js_inj Let_def)
    next
      case Stopped
      with Has run b outcome_Restart [OF assms(1), of lib u v cfg] show ?thesis
        by (simp add: outcome_of_def js_inj Let_def b_def)
    qed (use Has run b assms(1) in \<open>simp_all add: outcome_of_def js_inj Let_def b_def\<close>)
  qed
qed

section \<open>The commands that call the orchestrator\<close>

definition answered :: "resp \<Rightarrow> bool" where
  "answered r \<longleftrightarrow> (case r of GotHttp s \<Rightarrow> True | _ \<Rightarrow> False)"

lemma ref_run_exchange:
  "answered (ks_answer w q) \<Longrightarrow> \<exists>s. run ref_service (http q) w = (Returned s, ks_next w q)"
  "\<not> answered (ks_answer w q) \<Longrightarrow> run ref_service (http q) w = (Threw (fail_of (ks_answer w q)), ks_next w q)"
  by (auto simp: ref_run_http answered_def split: resp.splits)

lemma outcome_Stop:
  assumes "world_ok w" and "orch_ok cfg w"
  shows "outcome_of same_users lib u v w (handleStopCommand lib cfg (sendReply cfg False) u v)
    (let left = ks_binding (ks_next w (stop_request cfg u)) u
     in if answered (ks_answer w (stop_request cfg u)) \<and> truthy left then Has Stopped else abs_state left)
    [] [stop_request cfg u]
    (if answered (ks_answer w (stop_request cfg u)) then STOPPED_TEXT else STOP_FAILED_TEXT)"
proof -
  let ?w = "ks_next w (stop_request cfg u)"
  note ok = world_ok_next [OF assms, of "stop_request cfg u"]
  note others = same_users_next [OF assms(2), of u "stop_request cfg u", simplified]
  show ?thesis
  proof (cases "answered (ks_answer w (stop_request cfg u))")
    case False
    then show ?thesis
      using ref_run_exchange(2) [OF False] ok others
      by (simp add: outcome_of_def handleStopCommand_def act_simps stopVM_def flip: stop_request_def)
  next
    case True
    then obtain s where s: "run ref_service (http (stop_request cfg u)) w = (Returned s, ?w)"
      using ref_run_exchange(1) by blast
    show ?thesis
    proof (cases "truthy (ks_binding ?w u)")
      case t: True
      then obtain b where b: "run ref_service (updateVMBindingStatus u Stopped None) ?w = (Returned (), ks_bind ?w u b)"
        "json_ok b" "entry_ok b" "truthy b" "opt_prop b ''status'' = StrV (status_str Stopped)"
        by (rule run_update_entry [OF ok, of u None undefined Stopped]) auto
      with True t s others show ?thesis
        using world_ok_bind [OF ok b(2,3)] abs_state_status [OF b(4,5)]
        by (simp add: outcome_of_def handleStopCommand_def act_simps stopVM_def flip: stop_request_def)
    next
      case False
      with True s ok others show ?thesis
        by (simp add: outcome_of_def handleStopCommand_def act_simps stopVM_def ref_run_update
            flip: stop_request_def)
    qed
  qed
qed

lemma run_handleDestroyCommand:
  "run ref_service (handleDestroyCommand lib cfg (sendReply cfg False) u v) w =
    (let q = destroy_request cfg u; left = ks_next w q; destroyed = answered (ks_answer w q)
     in (Returned (plain_answer lib u v (ks_clock w) (if destroyed then DESTROYED_TEXT else DESTROY_FAILED_TEXT)),
         if destroyed then ks_unbind left u else left))"
proof (cases "answered (ks_answer w (destroy_request cfg u))")
  case False
  then show ?thesis
    using ref_run_exchange(2) [OF False]
    by (simp add: handleDestroyCommand_def act_simps destroyVM_def Let_def flip: destroy_request_def)
next
  case True
  then obtain s where "run ref_service (http (destroy_request cfg u)) w = (Returned s, ks_next w (destroy_request cfg u))"
    using ref_run_exchange(1) by blast
  with True show ?thesis
    by (simp add: handleDestroyCommand_def act_simps destroyVM_def Let_def flip: destroy_request_def)
qed

lemma run_handlePasswdCommand:
  "run ref_service (handlePasswdCommand lib cfg (sendReply cfg False) u v pw) w =
    (let q = passwd_request cfg u pw
     in if length pw < 8 then (Returned (plain_answer lib u v (ks_clock w) PASSWD_SHORT_TEXT), w)
        else (Returned (plain_answer lib u v (ks_clock w)
                (if answered (ks_answer w q) then PASSWD_OK_TEXT else PASSWD_FAILED_TEXT)), ks_next w q))"
proof (cases "length pw < 8")
  case False
  show ?thesis
  proof (cases "answered (ks_answer w (passwd_request cfg u pw))")
    case True
    then obtain s where "run ref_service (http (passwd_request cfg u pw)) w = (Returned s, ks_next w (passwd_request cfg u pw))"
      using ref_run_exchange(1) by blast
    with False True show ?thesis
      by (simp add: handlePasswdCommand_def act_simps changePassword_def Let_def flip: passwd_request_def)
  next
    case f: False
    with False ref_run_exchange(2) [OF f] show ?thesis
      by (simp add: handlePasswdCommand_def act_simps changePassword_def Let_def flip: passwd_request_def)
  qed
qed (simp add: handlePasswdCommand_def)

text \<open>What the destroy and password commands leave is a world of the program, with the others untouched.\<close>

lemma exchange_frame:
  assumes "world_ok w" "orch_ok cfg w"
  shows "world_ok (snd (run ref_service (handleDestroyCommand lib cfg (sendReply cfg False) u v) w))"
    "same_users u w (snd (run ref_service (handleDestroyCommand lib cfg (sendReply cfg False) u v) w))"
    "world_ok (snd (run ref_service (handlePasswdCommand lib cfg (sendReply cfg False) u v pw) w))"
    "same_users u w (snd (run ref_service (handlePasswdCommand lib cfg (sendReply cfg False) u v pw) w))"
  using assms
  by (simp_all add: run_handleDestroyCommand run_handlePasswdCommand Let_def world_ok_unbind world_ok_next same_users_next)

section \<open>The background procedures, run\<close>

text \<open>Sending a customer-service message leaves every binding alone; it is no exchange with the orchestrator.\<close>

lemma ref_orch: "ks_orch (snd (ref_service w r)) = ks_orch w"
  by (cases "(w, r)" rule: ref_service.cases) (auto simp: ks_store_def)

lemma orch_ok_service [simp]: "orch_ok cfg (snd (ref_service w r)) = orch_ok cfg w"
  by (simp add: orch_ok_def ref_orch)

lemma message_keys:
  assumes "requests (message_req cfg M) m" and "orch_ok cfg w"
  shows "ks_map (snd (run ref_service m w)) (binding_key u) = ks_map w (binding_key u)"
proof -
  let ?I = "\<lambda>w'. orch_ok cfg w' \<and> (\<forall>u. ks_map w' (binding_key u) = ks_map w (binding_key u))"
  have quiet: "ks_map (ks_next w' q) = ks_map w'" if "orch_ok cfg w'" "rq_timeout q = None" for w' q
    using orch_ok_silent [OF that(1), of q] that(2) vm_exchange_shape [of cfg _ q] by fastforce
  have maps: "ks_map (snd (ref_service w' r)) (binding_key u) = ks_map w' (binding_key u)"
    if I: "orch_ok cfg w'" and r: "message_req cfg M r" for w' r u
  proof (cases r)
    case (RedisSet k v md)
    with r have k: "k = TOKEN_KEY \<or> k = TOKEN_LOCK_KEY" by (auto simp: message_req_def posts_message_def)
    have "\<exists>x. snd (ref_service w' (RedisSet k v md)) = w' \<or> snd (ref_service w' (RedisSet k v md)) = ks_store w' k v x"
      by (cases "(w', RedisSet k v md)" rule: ref_service.cases) auto
    with k RedisSet show ?thesis by (auto simp: ks_store_def)
  next
    case (Http q)
    with r have "rq_timeout q = None" by (auto simp: message_req_def posts_message_def token_request_def send_request_def)
    with I Http quiet show ?thesis by simp
  qed (use r in \<open>auto simp: message_req_def posts_message_def\<close>)
  have "?I (snd (run ref_service m w))"
    by (rule run_invariant [OF assms(1)]) (use maps assms(2) in auto)
  then show ?thesis by simp
qed

lemma world_keys:
  assumes "\<And>u. ks_map w' (binding_key u) = ks_map w (binding_key u)" and "world_ok w"
  shows "ks_binding w' u = ks_binding w u" and "\<bar>ks_clock w'\<bar> < 10 ^ 21 \<Longrightarrow> world_ok w'"
proof -
  show same: "ks_binding w' u = ks_binding w u" for u
    using assms by (simp add: world_ok_def ks_binding_def ks_live_def split: option.split)
  show "\<bar>ks_clock w'\<bar> < 10 ^ 21 \<Longrightarrow> world_ok w'"
    using assms by (simp add: world_ok_def same)
qed

lemma notify_run:
  assumes "run ref_service (sendTextMessage cfg n u (StrV s)) w = (r, w')" and "world_ok w" "orch_ok cfg w"
  shows "ks_binding w' x = ks_binding w x" and "r \<noteq> Threw e" and "\<bar>ks_clock w'\<bar> < 10 ^ 21 \<Longrightarrow> world_ok w'"
proof -
  have "requests (message_req cfg (\<lambda>_. True)) (sendTextMessage cfg n u (StrV s))" by (rule requests_sendTextMessage) simp
  from message_keys [OF this assms(3)] have "ks_map w' (binding_key u) = ks_map w (binding_key u)" for u
    using assms(1) by (metis snd_conv)
  note keys = world_keys [OF this assms(2)]
  show "ks_binding w' x = ks_binding w x" by (rule keys(1))
  show "\<bar>ks_clock w'\<bar> < 10 ^ 21 \<Longrightarrow> world_ok w'" by (rule keys(2))
  show "r \<noteq> Threw e"
    using run_safe [OF no_throw_sendTextMessage, of ref_service cfg n u s w] assms(1) by auto
qed

text \<open>The orchestrator answered with the VM: the binding is replaced, whatever becomes of the message.\<close>

lemma provision_success:
  assumes "world_ok w" "orch_ok cfg w" and "ks_answer w (create_request cfg u) = GotHttp s"
    and "truthy (rs_data s)" and "json_ok (opt_prop (rs_data s) ''vm_ip'')" "json_ok (opt_prop (rs_data s) ''webhook_url'')"
    and "run ref_service (provisionVMAsync cfg n u) w = (r, w')"
  shows "r \<noteq> Threw e" and "ks_binding w' u = binding_val (vm_binding_of (opt_prop (rs_data s) ''vm_ip'')
      (opt_prop (rs_data s) ''webhook_url'')
      (if opt_prop (rs_data s) ''status'' = str_val ''running'' then Running else Provisioning) (ks_clock w) (ks_clock w))"
    and "same_others u w w'" and "\<bar>ks_clock w'\<bar> < 10 ^ 21 \<Longrightarrow> world_ok w'"
proof -
  let ?b = "binding_val (vm_binding_of (opt_prop (rs_data s) ''vm_ip'') (opt_prop (rs_data s) ''webhook_url'')
      (if opt_prop (rs_data s) ''status'' = str_val ''running'' then Running else Provisioning) (ks_clock w) (ks_clock w))"
  let ?left = "ks_next w (create_request cfg u)" let ?w = "ks_bind ?left u ?b"
  have t: "\<bar>ks_clock w\<bar> < 10 ^ 21" using assms(1) by (simp add: world_ok_def)
  have ok: "json_ok ?b" by (rule entry_ok_binding_val [OF assms(5,6) t t])
  have w: "world_ok ?w" by (rule world_ok_bind [OF world_ok_next [OF assms(1,2)] ok entry_ok_binding [OF ok]])
  have others: "same_others u w ?left" by (rule same_others_next [OF assms(2)]) simp
  obtain r1 w1 where m: "run ref_service (sendTextMessage cfg n u (StrV (READY_TEXT cfg u))) ?w = (r1, w1)" by fastforce
  have "orch_ok cfg ?w" using assms(2) by simp
  note n = notify_run [OF m w this]
  have "run ref_service (provision_steps cfg n u) w = (case r1 of Returned _ \<Rightarrow> Returned () | Threw e \<Rightarrow> Threw e
      | Exhausted \<Rightarrow> Exhausted, w1)"
    using assms(3,4) m
    by (cases r1) (simp_all add: provision_steps_def createVM_def act_simps ref_run_http truthy_get_prop flip: create_request_def)
  then have "w' = w1" "\<And>e. r \<noteq> Threw e"
    using assms(7) n(2) by (cases r1; auto simp: provisionVMAsync_def act_simps)+
  then show "r \<noteq> Threw e" "ks_binding w' u = ?b" "same_others u w w'" "\<bar>ks_clock w'\<bar> < 10 ^ 21 \<Longrightarrow> world_ok w'"
    using n(1,3) ok others by (simp_all add: same_others_def ks_binding_bind_other)
qed

text \<open>A task failed: the error is recorded in the binding, if there is one then, and not thrown.\<close>

definition recorded :: "jsval \<Rightarrow> jserr \<Rightarrow> keyspace \<Rightarrow> keyspace \<Rightarrow> bool" where
  "recorded u err w w' \<longleftrightarrow>
     (if truthy (ks_binding w u)
      then abs_state (ks_binding w' u) = Has ErrorStatus
        \<and> opt_prop (ks_binding w' u) ''errorMessage'' = StrV (err_message err)
        \<and> (\<forall>k. k \<notin> {''status'', ''lastActiveAt'', ''errorMessage''} \<longrightarrow>
             opt_prop (ks_binding w' u) k = opt_prop (ks_binding w u) k)
      else ks_binding w' u = ks_binding w u)"

lemma run_record:
  assumes "world_ok w" "orch_ok cfg w"
  obtains w' where "run ref_service (updateVMBindingStatus u ErrorStatus (Some (error_fields err))) w = (Returned (), w')"
    "world_ok w'" "orch_ok cfg w'" "same_others u w w'" "recorded u err w w'"
proof (cases "truthy (ks_binding w u)")
  case True
  obtain b where "run ref_service (updateVMBindingStatus u ErrorStatus (Some (error_fields err))) w = (Returned (), ks_bind w u b)"
    "json_ok b" "entry_ok b" "truthy b" "opt_prop b ''status'' = StrV (status_str ErrorStatus)"
    "\<And>k. k \<notin> {''status'', ''lastActiveAt'', ''errorMessage''} \<Longrightarrow> opt_prop b k = opt_prop (ks_binding w u) k"
    "opt_prop b ''errorMessage'' = StrV (err_message err)"
    by (rule run_update_entry [OF assms(1) True, of "Some (error_fields err)" err ErrorStatus]) auto
  with True that [of "ks_bind w u b"] world_ok_bind [OF assms(1)] abs_state_status [of b ErrorStatus] assms(2)
  show thesis by (simp add: recorded_def)
next
  case False
  with that [of w] assms show thesis by (simp add: ref_run_update recorded_def)
qed

lemma provision_failure:
  assumes "run ref_service (provision_steps cfg n u) w = (Threw err, w1)" and "world_ok w1" "orch_ok cfg w1"
    and "run ref_service (provisionVMAsync cfg n u) w = (r, w')"
  shows "r \<noteq> Threw e" and "same_others u w1 w'" and "recorded u err w1 w'"
    and "\<bar>ks_clock w'\<bar> < 10 ^ 21 \<Longrightarrow> world_ok w'"
proof -
  obtain w2 where w2: "run ref_service (updateVMBindingStatus u ErrorStatus (Some (error_fields err))) w1 = (Returned (), w2)"
    "world_ok w2" "orch_ok cfg w2" "same_others u w1 w2" "recorded u err w1 w2"
    by (rule run_record [OF assms(2,3)])
  obtain r3 w3 where m: "run ref_service (sendTextMessage cfg n u (StrV PROVISION_FAILED_TEXT)) w2 = (r3, w3)" by fastforce
  note n = notify_run [OF m w2(2,3)]
  have "w' = w3 \<and> r \<noteq> Threw e" for e
    using assms(1,4) w2(1) m n(2) by (cases r3) (auto simp: provisionVMAsync_def act_simps)
  then show "r \<noteq> Threw e" "same_others u w1 w'" "recorded u err w1 w'" "\<bar>ks_clock w'\<bar> < 10 ^ 21 \<Longrightarrow> world_ok w'"
    using n(1,3) w2(4,5) by (simp_all add: same_others_def recorded_def)
qed

lemma restart_failure:
  assumes "run ref_service (restart_steps cfg n u) w = (Threw err, w1)" and "world_ok w1" "orch_ok cfg w1"
    and "run ref_service (restart_task cfg n u) w = (r, w')"
  shows "r = Returned ()" and "same_others u w1 w'" and "recorded u err w1 w'" and "world_ok w'"
proof -
  obtain w2 where w2: "run ref_service (updateVMBindingStatus u ErrorStatus (Some (error_fields err))) w1 = (Returned (), w2)"
    "world_ok w2" "orch_ok cfg w2" "same_others u w1 w2" "recorded u err w1 w2"
    by (rule run_record [OF assms(2,3)])
  with assms(1,4) have "r = Returned ()" "w' = w2" by (simp_all add: restart_task_def act_simps)
  with w2(2-) show "r = Returned ()" "same_others u w1 w'" "recorded u err w1 w'" "world_ok w'" by simp_all
qed

text \<open>The exchange failed, or its answer was \<open>null\<close>, which a look at its fields turns into an exception.\<close>

definition no_vm :: "resp \<Rightarrow> bool" where
  "no_vm r \<longleftrightarrow> (case r of GotHttp s \<Rightarrow> rs_data s = Null \<or> rs_data s = Undef | _ \<Rightarrow> True)"

lemma provision_steps_unanswered:
  assumes "\<not> answered (ks_answer w (create_request cfg u))"
  shows "run ref_service (provision_steps cfg n u) w =
    (Threw (fail_of (ks_answer w (create_request cfg u))), ks_next w (create_request cfg u))"
  using ref_run_exchange(2) [OF assms]
  by (simp add: provision_steps_def createVM_def act_simps flip: create_request_def)

lemma provision_steps_no_vm:
  assumes "no_vm (ks_answer w (create_request cfg u))"
  obtains err where "run ref_service (provision_steps cfg n u) w = (Threw err, ks_next w (create_request cfg u))"
proof (cases "answered (ks_answer w (create_request cfg u))")
  case True
  then obtain s where "ks_answer w (create_request cfg u) = GotHttp s" by (auto simp: answered_def split: resp.splits)
  with assms that show thesis
    by (auto simp: no_vm_def provision_steps_def createVM_def act_simps ref_run_http simp flip: create_request_def)
qed (use provision_steps_unanswered that in blast)

lemma restart_steps_no_vm:
  assumes "no_vm (ks_answer w (start_request cfg u))"
  obtains err where "run ref_service (restart_steps cfg n u) w = (Threw err, ks_next w (start_request cfg u))"
proof (cases "answered (ks_answer w (start_request cfg u))")
  case True
  then obtain s where "ks_answer w (start_request cfg u) = GotHttp s" by (auto simp: answered_def split: resp.splits)
  with assms that show thesis
    by (auto simp: no_vm_def restart_steps_def startVM_def act_simps ref_run_http simp flip: start_request_def)
next
  case False
  from ref_run_exchange(2) [OF this] that show thesis
    by (simp add: restart_steps_def startVM_def act_simps flip: start_request_def)
qed

lemma restart_success:
  assumes "world_ok w" "orch_ok cfg w" and "ks_answer w (start_request cfg u) = GotHttp s"
    and "truthy (rs_data s)" and "json_ok (opt_prop (rs_data s) ''vm_ip'')" "json_ok (opt_prop (rs_data s) ''webhook_url'')"
    and "run ref_service (restart_task cfg n u) w = (r, w')"
  shows "r \<noteq> Threw e" and "same_others u w w'"
    and "ks_binding w' u = binding_val (vm_binding_of (opt_prop (rs_data s) ''vm_ip'')
      (opt_prop (rs_data s) ''webhook_url'') Running (ks_clock w) (ks_clock w))"
    and "\<bar>ks_clock w'\<bar> < 10 ^ 21 \<Longrightarrow> world_ok w'"
proof -
  let ?b = "binding_val (vm_binding_of (opt_prop (rs_data s) ''vm_ip'')
      (opt_prop (rs_data s) ''webhook_url'') Running (ks_clock w) (ks_clock w))"
  let ?left = "ks_next w (start_request cfg u)" let ?w = "ks_bind ?left u ?b"
  have t: "\<bar>ks_clock w\<bar> < 10 ^ 21" using assms(1) by (simp add: world_ok_def)
  have ok: "json_ok ?b" by (rule entry_ok_binding_val [OF assms(5,6) t t])
  have w: "world_ok ?w" by (rule world_ok_bind [OF world_ok_next [OF assms(1,2)] ok entry_ok_binding [OF ok]])
  have others: "same_others u w ?left" by (rule same_others_next [OF assms(2)]) simp
  obtain r1 w1 where m: "run ref_service (sendTextMessage cfg n u (StrV RESTARTED_TEXT)) ?w = (r1, w1)" by fastforce
  have "orch_ok cfg ?w" using assms(2) by simp
  note n = notify_run [OF m w this]
  have "run ref_service (restart_steps cfg n u) w = (case r1 of Returned _ \<Rightarrow> Returned () | Threw e \<Rightarrow> Threw e
      | Exhausted \<Rightarrow> Exhausted, w1)"
    using assms(3,4) m
    by (cases r1) (simp_all add: restart_steps_def startVM_def act_simps ref_run_http truthy_get_prop flip: start_request_def)
  then have "w' = w1 \<and> r \<noteq> Threw e" for e
    using assms(7) n(2) by (cases r1) (auto simp: restart_task_def act_simps)
  then show "r \<noteq> Threw e" "same_others u w w'" "ks_binding w' u = ?b" "\<bar>ks_clock w'\<bar> < 10 ^ 21 \<Longrightarrow> world_ok w'"
    using n(1,3) ok others by (simp_all add: same_others_def ks_binding_bind_other)
qed

end
