(* ===== verification/Concurrency.thy ===== *)
theory Concurrency
  imports App RouteSpec
begin

text \<open>
  The bridge as a single process that interleaves request handlers and background tasks.  A state holds
  the Redis keys, the pool of pending trees (a handler waiting for its response, a task that was started
  and not awaited) and whether the process has been ended by an unhandled rejection, which is what Node
  does by default when a promise nobody awaits is rejected.

  One step lets one member of the pool make its next request.  Redis commands act on the keys as
  documented; every other response is arbitrary within \<open>answers\<close>, which says that the services
  answer with the kinds of values they promise.  With \<open>faults\<close> a Redis command may also fail.  The
  orchestrator writes bindings too, during its exchanges and after an exchange that timed out: it may
  store or delete an entry between any two steps (\<open>outside\<close>).
\<close>

section \<open>The transition system\<close>

record system =
  sys_keys :: "jsstr \<Rightarrow> jsstr option"
  sys_pool :: "unit act list"
  sys_crashed :: bool

text \<open>The bodies of the tasks.\<close>

fun task_body :: "config \<Rightarrow> nat \<Rightarrow> task \<Rightarrow> unit act" where
  "task_body cfg fuel (ProvisionTask u) = provisionVMAsync cfg fuel u"
| "task_body cfg fuel (RestartTask u) = restart_task cfg fuel u"
| "task_body cfg fuel (ForwardTask m b) = forward_task cfg m b"

text \<open>What may stand under the key of a binding: nothing, or the JSON text of a printable object.\<close>

definition stored_ok :: "jsstr option \<Rightarrow> bool" where
  "stored_ok e \<longleftrightarrow> (\<forall>s. e = Some s \<longrightarrow> (\<exists>kvs. json_parse s = Inr (ObjV kvs) \<and> json_ok (ObjV kvs)))"

lemma stored_ok_None [simp]: "stored_ok None"
  by (simp add: stored_ok_def)

lemma stored_ok_stringify: "json_ok b \<Longrightarrow> entry_ok b \<Longrightarrow> truthy b \<Longrightarrow> stored_ok (Some (stringify b))"
  by (auto simp: stored_ok_def entry_ok_def json_parse_stringify)

lemma entry_ok_stored: "stored_ok e \<Longrightarrow> entry_ok (decode_binding e)"
  by (cases e) (auto simp: stored_ok_def entry_ok_def decode_binding_def)

lemma orch_entry_stored: "orch_entry s \<Longrightarrow> stored_ok (Some s)"
  by (auto simp: orch_entry_def stored_ok_def)

text \<open>What a VM answer carries: nothing at all, or two printable addresses.\<close>

definition vm_data_ok :: "jsval \<Rightarrow> bool" where
  "vm_data_ok v \<longleftrightarrow> v = Undef \<or> v = Null \<or> json_ok (opt_prop v ''vm_ip'') \<and> json_ok (opt_prop v ''webhook_url'')"

definition vm_answer :: "config \<Rightarrow> http_req \<Rightarrow> bool" where
  "vm_answer cfg q \<longleftrightarrow> (\<exists>u. q = create_request cfg u \<or> q = start_request cfg u)"

text \<open>
  \<open>answers cfg keys r x keys'\<close>: in a store \<open>keys\<close> the request \<open>r\<close> may be answered by \<open>x\<close> and leave
  \<open>keys'\<close>.  What the orchestrator writes during an exchange is a step of its own.  A key set with a time to live may be found or not, and may have gone by the next step.
\<close>

fun answers :: "config \<Rightarrow> (jsstr \<Rightarrow> jsstr option) \<Rightarrow> req \<Rightarrow> resp \<Rightarrow> (jsstr \<Rightarrow> jsstr option) \<Rightarrow> bool" where
  "answers cfg keys (RedisGet k) x keys' \<longleftrightarrow> x = GotStr (keys k) \<and> keys' = keys"
| "answers cfg keys (RedisSet k v SetPlain) x keys' \<longleftrightarrow> x = GotBool True \<and> keys' = keys(k \<mapsto> v)"
| "answers cfg keys (RedisSet k v (SetEx ttl)) x keys' \<longleftrightarrow>
     (x = GotBool True \<and> keys' = keys(k \<mapsto> v)) \<or> ((\<exists>e. x = Failed e) \<and> keys' = keys)"
| "answers cfg keys (RedisSet k v (SetNxEx ttl)) x keys' \<longleftrightarrow>
     (if keys k = None then x = GotBool True \<and> keys' = keys(k \<mapsto> v) else x = GotBool False \<and> keys' = keys)"
| "answers cfg keys (RedisDel k) x keys' \<longleftrightarrow> x = GotNum (if keys k = None then 0 else 1) \<and> keys' = keys(k := None)"
| "answers cfg keys (RedisExists k) x keys' \<longleftrightarrow> x = GotNum (if keys k = None then 0 else 1) \<and> keys' = keys"
| "answers cfg keys (Http q) x keys' \<longleftrightarrow> keys' = keys \<and>
     ((\<exists>e. x = Failed e) \<or> (\<exists>s. x = GotHttp s \<and> (vm_answer cfg q \<longrightarrow> vm_data_ok (rs_data s))))"
| "answers cfg keys DateNow x keys' \<longleftrightarrow> keys' = keys \<and> (\<exists>t. x = GotNum t \<and> \<bar>t\<bar> < 10 ^ 21)"
| "answers cfg keys (Sleep ms) x keys' \<longleftrightarrow> x = Done \<and>
     (keys' = keys \<or> keys' = keys(TOKEN_KEY := None) \<or> keys' = keys(TOKEN_LOCK_KEY := None))"
| "answers cfg keys (RandomBytes n) x keys' \<longleftrightarrow> keys' = keys \<and> (\<exists>b. x = GotBytes b \<and> length b = n)"
| "answers cfg keys (RandomInt n) x keys' \<longleftrightarrow> keys' = keys \<and> (\<exists>i. x = GotNum i \<and> 0 \<le> i \<and> i < int (max 1 n))"
| "answers cfg keys (Spawn t) x keys' \<longleftrightarrow> x = Done \<and> keys' = keys"

definition redis_command :: "req \<Rightarrow> bool" where
  "redis_command r \<longleftrightarrow> (case r of RedisGet k \<Rightarrow> True | RedisSet k v m \<Rightarrow> True | RedisDel k \<Rightarrow> True
     | RedisExists k \<Rightarrow> True | _ \<Rightarrow> False)"

text \<open>What a request adds to the pool.\<close>

fun started :: "config \<Rightarrow> nat \<Rightarrow> req \<Rightarrow> unit act list" where
  "started cfg fuel (Spawn t) = [task_body cfg fuel t]"
| "started cfg fuel _ = []"

inductive step :: "library \<Rightarrow> environment \<Rightarrow> config \<Rightarrow> nat \<Rightarrow> bool \<Rightarrow> system \<Rightarrow> system \<Rightarrow> bool"
  for lib env cfg fuel faults where
  arrive: "\<lbrakk>\<not> crashed; handleRequest lib env cfg fuel r = Some m\<rbrakk> \<Longrightarrow>
     step lib env cfg fuel faults \<lparr>sys_keys = keys, sys_pool = pool, sys_crashed = crashed\<rparr>
       \<lparr>sys_keys = keys, sys_pool = pool @ [await m (\<lambda>_. Return ())], sys_crashed = crashed\<rparr>"
| perform: "\<lbrakk>\<not> crashed; answers cfg keys r x keys'\<rbrakk> \<Longrightarrow>
     step lib env cfg fuel faults \<lparr>sys_keys = keys, sys_pool = pre @ Perform r k # post, sys_crashed = crashed\<rparr>
       \<lparr>sys_keys = keys', sys_pool = pre @ k x # post @ started cfg fuel r, sys_crashed = crashed\<rparr>"
| fault: "\<lbrakk>\<not> crashed; faults; redis_command r\<rbrakk> \<Longrightarrow>
     step lib env cfg fuel faults \<lparr>sys_keys = keys, sys_pool = pre @ Perform r k # post, sys_crashed = crashed\<rparr>
       \<lparr>sys_keys = keys, sys_pool = pre @ k (Failed e) # post, sys_crashed = crashed\<rparr>"
| outside: "\<lbrakk>\<not> crashed; stored_ok e\<rbrakk> \<Longrightarrow>
     step lib env cfg fuel faults \<lparr>sys_keys = keys, sys_pool = pool, sys_crashed = crashed\<rparr>
       \<lparr>sys_keys = keys(binding_key u := e), sys_pool = pool, sys_crashed = crashed\<rparr>"
| finish: "\<not> crashed \<Longrightarrow>
     step lib env cfg fuel faults \<lparr>sys_keys = keys, sys_pool = pre @ Return () # post, sys_crashed = crashed\<rparr>
       \<lparr>sys_keys = keys, sys_pool = pre @ post, sys_crashed = crashed\<rparr>"
| crash: "\<not> crashed \<Longrightarrow>
     step lib env cfg fuel faults \<lparr>sys_keys = keys, sys_pool = pre @ Throw e # post, sys_crashed = crashed\<rparr>
       \<lparr>sys_keys = keys, sys_pool = pre @ Throw e # post, sys_crashed = True\<rparr>"

inductive reachable :: "library \<Rightarrow> environment \<Rightarrow> config \<Rightarrow> nat \<Rightarrow> bool \<Rightarrow> system \<Rightarrow> bool"
  for lib env cfg fuel faults where
  start: "(\<And>u. stored_ok (keys (binding_key u))) \<Longrightarrow>
     reachable lib env cfg fuel faults \<lparr>sys_keys = keys, sys_pool = [], sys_crashed = False\<rparr>"
| next_state: "reachable lib env cfg fuel faults s \<Longrightarrow> step lib env cfg fuel faults s s' \<Longrightarrow>
     reachable lib env cfg fuel faults s'"

inductive_simps step_crashed: "step lib env cfg fuel faults \<lparr>sys_keys = keys, sys_pool = pool, sys_crashed = True\<rparr> s'"

section \<open>Rely and guarantee\<close>

text \<open>
  \<open>upholds cfg flt flt E m\<close>: as long as the responses are those of a store whose bindings are well formed
  (or, with \<open>flt\<close>, failures of Redis commands), every write of \<open>m\<close> to a binding is well formed, and every exception of \<open>m\<close> satisfies \<open>E\<close>.
\<close>

definition relied :: "config \<Rightarrow> bool \<Rightarrow> req \<Rightarrow> resp \<Rightarrow> bool" where
  "relied cfg flt r x \<longleftrightarrow>
     (\<exists>keys keys'. (\<forall>u. stored_ok (keys (binding_key u))) \<and> answers cfg keys r x keys')
     \<or> flt \<and> redis_command r \<and> (\<exists>e. x = Failed e)"

fun guaranteed :: "req \<Rightarrow> bool" where
  "guaranteed (RedisSet k v m) \<longleftrightarrow> (\<exists>u. k = binding_key u) \<longrightarrow> stored_ok (Some v)"
| "guaranteed _ \<longleftrightarrow> True"

primrec upholds :: "config \<Rightarrow> bool \<Rightarrow> ('a \<Rightarrow> bool) \<Rightarrow> (jserr \<Rightarrow> bool) \<Rightarrow> 'a act \<Rightarrow> bool" where
  "upholds cfg flt Q E (Return x) = Q x"
| "upholds cfg flt Q E (Throw e) = E e"
| "upholds cfg flt Q E Diverge = True"
| "upholds cfg flt Q E (Perform r k) = (guaranteed r \<and> (\<forall>x. relied cfg flt r x \<longrightarrow> upholds cfg flt Q E (k x)))"

lemma under_await:
  "upholds cfg flt R E m \<Longrightarrow> (\<And>x. R x \<Longrightarrow> upholds cfg flt Q E (f x)) \<Longrightarrow> upholds cfg flt Q E (await m f)"
  by (induction m) auto

lemma under_try_catch:
  "upholds cfg flt Q F m \<Longrightarrow> (\<And>e. F e \<Longrightarrow> upholds cfg flt Q E (h e)) \<Longrightarrow> upholds cfg flt Q E (try_catch m h)"
  by (induction m) auto

lemma under_mono:
  "upholds cfg flt Q E m \<Longrightarrow> (\<And>x. Q x \<Longrightarrow> Q' x) \<Longrightarrow> (\<And>e. E e \<Longrightarrow> E' e) \<Longrightarrow> upholds cfg flt Q' E' m"
  by (induction m) auto

lemma under_safe: "safe guaranteed Q E m \<Longrightarrow> upholds cfg flt Q E m"
  by (induction m) auto

lemma under_lift_sum:
  "(\<And>x. m = Inr x \<Longrightarrow> Q x) \<Longrightarrow> (\<And>e. m = Inl e \<Longrightarrow> E e) \<Longrightarrow> upholds cfg flt Q E (lift_sum m)"
  by (cases m) auto

lemma under_requests: "requests guaranteed m \<Longrightarrow> upholds cfg flt (\<lambda>_. True) (\<lambda>_. True) m"
  by (rule under_safe)

lemma safe_conj: "safe P Q E m \<Longrightarrow> safe P' Q' E' m \<Longrightarrow> safe P (\<lambda>x. Q x \<and> Q' x) (\<lambda>e. E e \<and> E' e) m"
  by (induction m) auto

text \<open>The requests of the store, the clock and the orchestrator.\<close>

lemma relied_get: "relied cfg flt (RedisGet (binding_key u)) x \<Longrightarrow>
     (\<exists>s. x = GotStr s \<and> stored_ok s) \<or> flt \<and> (\<exists>e. x = Failed e)"
  by (auto simp: relied_def redis_command_def)

lemma under_get: "upholds cfg flt entry_ok (\<lambda>_. flt) (getVMBinding u)"
  by (auto simp: getVMBinding_def redis_get_def entry_ok_stored dest!: relied_get)

lemma under_set: "json_ok b \<Longrightarrow> entry_ok b \<Longrightarrow> truthy b \<Longrightarrow> upholds cfg flt (\<lambda>_. True) (\<lambda>_. flt) (setVMBinding u b)"
  by (auto simp: setVMBinding_def redis_set_def relied_def redis_command_def stored_ok_stringify)

lemma under_del: "upholds cfg flt (\<lambda>_. True) (\<lambda>_. flt) (deleteVMBinding u)"
  by (auto simp: deleteVMBinding_def redis_del_def relied_def redis_command_def)

lemma under_date: "upholds cfg flt (\<lambda>t. \<bar>t\<bar> < 10 ^ 21) (\<lambda>_. flt) date_now"
  by (auto simp: date_now_def relied_def redis_command_def)

lemma under_spawn: "upholds cfg flt (\<lambda>_. True) (\<lambda>_. flt) (spawn t)"
  by (simp add: spawn_def)

lemma under_vm_data:
  "vm_answer cfg q \<Longrightarrow> upholds cfg flt vm_data_ok (\<lambda>_. True) (await (http q) (\<lambda>response. Return (rs_data response)))"
  by (auto simp: http_def relied_def redis_command_def split: resp.split)

lemma under_createVM: "upholds cfg flt vm_data_ok (\<lambda>_. True) (createVM cfg u)"
  unfolding createVM_def by (rule under_vm_data) (auto simp: vm_answer_def create_request_def)

lemma under_startVM: "upholds cfg flt vm_data_ok (\<lambda>_. True) (startVM cfg u)"
  unfolding startVM_def by (rule under_vm_data) (auto simp: vm_answer_def start_request_def)

lemma under_update:
  assumes "fs = None \<or> fs = Some (error_fields e)"
  shows "upholds cfg flt (\<lambda>_. True) (\<lambda>_. flt) (updateVMBindingStatus u s fs)"
  unfolding updateVMBindingStatus_def
proof (rule under_await [OF under_get])
  fix b
  assume b: "entry_ok b"
  show "upholds cfg flt (\<lambda>_. True) (\<lambda>_. flt) (if \<not> truthy b then Return ()
      else await date_now (\<lambda>now. await (lift_sum (touch_binding b s now fs)) (\<lambda>b. setVMBinding u b)))"
  proof (cases "truthy b")
    case True
    have "upholds cfg flt (\<lambda>_. True) (\<lambda>_. flt) (await (lift_sum (touch_binding b s t fs)) (\<lambda>b. setVMBinding u b))"
      if t: "\<bar>t\<bar> < 10 ^ 21" for t
    proof -
      obtain b' where "touch_binding b s t fs = Inr b'" "json_ok b'" "entry_ok b'" "truthy b'"
        by (rule touch_entry [OF b True t assms, of s]) auto
      then show ?thesis by (simp add: under_set)
    qed
    with True show ?thesis by (simp add: under_await [OF under_date] del: power_numeral)
  qed simp
qed

lemma message_req_guaranteed: "message_req cfg M r \<Longrightarrow> guaranteed r"
  by (cases r) (auto simp: message_req_def posts_message_def)

lemma under_notify: "upholds cfg flt (\<lambda>_. True) (\<lambda>_. flt) (sendTextMessage cfg n u (StrV s))"
proof -
  have "requests guaranteed (sendTextMessage cfg n u (StrV s))"
    by (rule safe_mono [OF requests_sendTextMessage [where M = "\<lambda>_. True"]]) (simp_all add: message_req_guaranteed)
  from under_safe [OF safe_conj [OF this no_throw_sendTextMessage]] show ?thesis
    by (rule under_mono) simp_all
qed

text \<open>Writing the binding of a VM answer.\<close>

lemma under_get_prop: "upholds cfg flt (\<lambda>x. get_prop v k = Inr x) (\<lambda>_. True) (lift_sum (get_prop v k))"
  by (rule under_lift_sum) auto

lemma vm_data_fields:
  "vm_data_ok v \<Longrightarrow> get_prop v ''vm_ip'' = Inr ip \<Longrightarrow> get_prop v ''webhook_url'' = Inr url \<Longrightarrow> json_ok ip \<and> json_ok url"
  using opt_prop_get [of v "''vm_ip''" ip] opt_prop_get [of v "''webhook_url''" url] by (auto simp: vm_data_ok_def)

lemma under_set_vm:
  assumes "json_ok ip" "json_ok url" "\<bar>c\<bar> < 10 ^ 21" "\<bar>a\<bar> < 10 ^ 21"
  shows "upholds cfg flt (\<lambda>_. True) (\<lambda>_. flt) (setVMBinding u (binding_val (vm_binding_of ip url s c a)))"
  using entry_ok_binding_val [OF assms] by (intro under_set entry_ok_binding) simp_all

lemma under_true: "upholds cfg flt (\<lambda>_. True) (\<lambda>_. flt) m \<Longrightarrow> upholds cfg flt (\<lambda>_. True) (\<lambda>_. True) m"
  by (erule under_mono) simp_all

lemma under_clock: "upholds cfg flt (\<lambda>t. \<bar>t\<bar> < 10 ^ 21) (\<lambda>_. True) date_now"
  by (rule under_mono [OF under_date]) simp_all

lemma under_provision_steps: "upholds cfg flt (\<lambda>_. True) (\<lambda>_. True) (provision_steps cfg n u)"
  unfolding provision_steps_def
proof (rule under_await [OF under_createVM], rule under_await [OF under_get_prop],
    rule under_await [OF under_get_prop], rule under_await [OF under_get_prop],
    rule under_await [OF under_clock], rule under_await [OF under_clock])
  fix v ip url st and c a :: int
  assume *: "vm_data_ok v" "get_prop v ''vm_ip'' = Inr ip" "get_prop v ''webhook_url'' = Inr url"
    "\<bar>c\<bar> < 10 ^ 21" "\<bar>a\<bar> < 10 ^ 21"
  note ok = vm_data_fields [OF *(1-3)]
  show "upholds cfg flt (\<lambda>_. True) (\<lambda>_. True) (await (setVMBinding u (binding_val
      (vm_binding_of ip url (if st = str_val ''running'' then Running else Provisioning) c a)))
      (\<lambda>_. await (sendTextMessage cfg n u (StrV (READY_TEXT cfg u))) (\<lambda>_. Return ())))"
    by (rule under_await [OF under_true [OF under_set_vm]], use ok * in simp_all)
      (rule under_await [OF under_true [OF under_notify]], simp)
qed

lemma under_restart_steps: "upholds cfg flt (\<lambda>_. True) (\<lambda>_. True) (restart_steps cfg n u)"
  unfolding restart_steps_def
proof (rule under_await [OF under_startVM], rule under_await [OF under_get_prop],
    rule under_await [OF under_get_prop], rule under_await [OF under_clock], rule under_await [OF under_clock])
  fix v ip url and c a :: int
  assume *: "vm_data_ok v" "get_prop v ''vm_ip'' = Inr ip" "get_prop v ''webhook_url'' = Inr url"
    "\<bar>c\<bar> < 10 ^ 21" "\<bar>a\<bar> < 10 ^ 21"
  note ok = vm_data_fields [OF *(1-3)]
  show "upholds cfg flt (\<lambda>_. True) (\<lambda>_. True) (await (setVMBinding u (binding_val (vm_binding_of ip url Running c a)))
      (\<lambda>_. await (sendTextMessage cfg n u (StrV RESTARTED_TEXT)) (\<lambda>_. Return ())))"
    by (rule under_await [OF under_true [OF under_set_vm]], use ok * in simp_all)
      (rule under_await [OF under_true [OF under_notify]], simp)
qed

text \<open>No task rejects as long as Redis answers.\<close>

lemma under_task_body: "upholds cfg flt (\<lambda>_. True) (\<lambda>_. flt) (task_body cfg n t)"
proof (cases t)
  case (ProvisionTask u)
  have "upholds cfg flt (\<lambda>_. True) (\<lambda>_. flt) (provisionVMAsync cfg n u)"
    unfolding provisionVMAsync_def
    by (rule under_try_catch [OF under_provision_steps])
      (auto intro!: under_await [OF under_update] under_try_catch [OF under_await [OF under_notify]])
  with ProvisionTask show ?thesis by simp
next
  case (RestartTask u)
  have "upholds cfg flt (\<lambda>_. True) (\<lambda>_. flt) (restart_task cfg n u)"
    unfolding restart_task_def by (rule under_try_catch [OF under_restart_steps]) (auto intro!: under_update)
  with RestartTask show ?thesis by simp
next
  case (ForwardTask m b)
  have "requests guaranteed (forward_task cfg m b)"
    unfolding forward_task_def doForward_def by (intro safe_intros) simp_all
  from under_safe [OF safe_conj [OF this no_throw_forward_task]] show ?thesis
    unfolding ForwardTask task_body.simps by (rule under_mono) simp_all
qed

section \<open>The request handlers\<close>

abbreviation keeps :: "config \<Rightarrow> bool \<Rightarrow> 'a act \<Rightarrow> bool" where
  "keeps cfg flt m \<equiv> upholds cfg flt (\<lambda>_. True) (\<lambda>_. True) m"

lemma keeps_say: "keeps cfg flt (say lib (sendReply cfg' enc) u v c)"
  by (intro under_requests requests_say requests_sendReply) simp_all

lemma keeps_NewUser: "keeps cfg flt (handleNewUser lib (sendReply cfg' enc) u v)"
  unfolding handleNewUser_def
proof (rule under_await [OF under_clock], rule under_await [OF under_clock])
  fix c a :: int
  assume "\<bar>c\<bar> < 10 ^ 21" "\<bar>a\<bar> < 10 ^ 21"
  then have "keeps cfg flt (setVMBinding u (binding_val (initial_binding c a)))"
    unfolding initial_binding_def by (intro under_true [OF under_set_vm]) simp_all
  then show "keeps cfg flt (await (setVMBinding u (binding_val (initial_binding c a)))
      (\<lambda>_. await (spawn (ProvisionTask u)) (\<lambda>_. say lib (sendReply cfg' enc) u v WELCOME_TEXT)))"
    by (rule under_await) (rule under_await [OF under_true [OF under_spawn]], rule keeps_say)
qed

lemma keeps_Restart: "keeps cfg flt (handleRestartCommand lib (sendReply cfg' enc) u v)"
  unfolding handleRestartCommand_def
  by (rule under_await [OF under_true [OF under_update [where e = undefined]]], simp)
    (rule under_await [OF under_true [OF under_spawn]], rule keeps_say)

lemma keeps_Status: "keeps cfg flt (handleStatusCommand lib cfg' (sendReply cfg' enc) u v)"
  unfolding handleStatusCommand_def
  by (rule under_requests) (auto intro!: safe_intros requests_getVMBinding requests_sendReply)

lemma keeps_calls: "keeps cfg flt (stopVM cfg' u)" "keeps cfg flt (destroyVM cfg' u)"
  unfolding stopVM_def destroyVM_def by (rule under_requests, intro safe_intros, simp_all)+

lemma keeps_try: "keeps cfg flt m \<Longrightarrow> (\<And>e. keeps cfg flt (h e)) \<Longrightarrow> keeps cfg flt (try_catch m h)"
  by (rule under_try_catch)

lemma keeps_await: "keeps cfg flt m \<Longrightarrow> (\<And>x. keeps cfg flt (f x)) \<Longrightarrow> keeps cfg flt (await m f)"
  by (rule under_await)

lemma keeps_update: "keeps cfg flt (updateVMBindingStatus u s None)"
  by (rule under_true [OF under_update [where e = undefined]]) simp

lemma keeps_Stop: "keeps cfg flt (handleStopCommand lib cfg' (sendReply cfg' enc) u v)"
  unfolding handleStopCommand_def
  by (intro keeps_try keeps_await keeps_calls keeps_update keeps_say)

lemma keeps_Destroy: "keeps cfg flt (handleDestroyCommand lib cfg' (sendReply cfg' enc) u v)"
  unfolding handleDestroyCommand_def
  by (intro keeps_try keeps_await keeps_calls under_true [OF under_del] keeps_say)

lemma keeps_Passwd: "keeps cfg flt (handlePasswdCommand lib cfg' (sendReply cfg' enc) u v pw)"
  unfolding handlePasswdCommand_def changePassword_def
  by (rule under_requests) (auto intro!: safe_intros requests_sendReply)

lemma keeps_runCommand:
  "runCommand lib cfg' (sendReply cfg' enc) u v c = Some m \<Longrightarrow> keeps cfg flt m"
  unfolding runCommand_def
  by (auto intro: keeps_say keeps_Restart keeps_Status keeps_Stop keeps_Destroy keeps_Passwd
      split: if_splits option.splits)

lemma keeps_lift: "(\<And>x. keeps cfg flt (f x)) \<Longrightarrow> keeps cfg flt (await (lift_sum m) f)"
  by (cases m) simp_all

lemma keeps_route: "keeps cfg flt (routeMessage lib cfg' (sendReply cfg' enc) m u v)"
  unfolding routeMessage_def forwardToClawdbot_def
  by (rule under_await [OF under_mono [OF under_get]])
    (auto intro!: keeps_NewUser keeps_Restart keeps_say keeps_lift
      under_await [OF under_true [OF under_update [where e = undefined]]] under_await [OF under_true [OF under_spawn]])

lemma keeps_handleMessage: "keeps cfg flt (handleMessage lib cfg' (sendReply cfg' enc) m)"
  unfolding handleMessage_def
  by (intro keeps_lift) (auto intro!: keeps_NewUser keeps_route keeps_lift dest: keeps_runCommand split: option.split)

lemma keeps_dispatch: "dispatch lib cfg' n r = Some m \<Longrightarrow> keeps cfg flt m"
proof -
  have w: "keeps cfg flt (postWechat lib cfg' q b)" for q b
    by (auto simp: postWechat_def intro: keeps_handleMessage split: sum.split)
  have c: "guaranteed r" if "callback_req cfg' u r" for u r
    using that message_req_guaranteed by (auto simp: callback_req_def)
  have cb: "keeps cfg flt (postCallback cfg' n u b)" "keeps cfg flt (postCallbackStream cfg' n u b)" for u b
    by (auto intro!: under_requests safe_mono [OF requests_postCallback c] safe_mono [OF requests_postCallbackStream c])
  have h: "keeps cfg flt health"
    unfolding health_def by (rule under_requests) (intro safe_intros, simp_all)
  assume "dispatch lib cfg' n r = Some m"
  then show ?thesis
    using w cb h by (auto simp: dispatch_def split: http_method.splits list.splits if_splits)
qed

lemma under_handleRequest:
  "handleRequest lib env cfg' n r = Some m \<Longrightarrow> upholds cfg flt (\<lambda>_. True) (\<lambda>_. flt) m"
  by (auto simp: handleRequest_def intro!: under_try_catch [OF keeps_dispatch])

section \<open>The invariant\<close>

definition bindings_ok :: "(jsstr \<Rightarrow> jsstr option) \<Rightarrow> bool" where
  "bindings_ok keys \<longleftrightarrow> (\<forall>u. stored_ok (keys (binding_key u)))"

lemma answers_bindings_ok:
  assumes "bindings_ok keys" "guaranteed r" "answers cfg keys r x keys'"
  shows "bindings_ok keys'"
  using assms
  by (cases "(cfg, keys, r, x, keys')" rule: answers.cases)
    (auto simp: bindings_ok_def split: if_splits)

definition system_inv :: "config \<Rightarrow> bool \<Rightarrow> system \<Rightarrow> bool" where
  "system_inv cfg flt s \<longleftrightarrow> bindings_ok (sys_keys s) \<and> (sys_crashed s \<longrightarrow> flt)
     \<and> (\<forall>m \<in> set (sys_pool s). upholds cfg flt (\<lambda>_. True) (\<lambda>_. flt) m)"

lemma started_upholds: "m \<in> set (started cfg n r) \<Longrightarrow> upholds cfg flt (\<lambda>_. True) (\<lambda>_. flt) m"
  by (cases r) (auto intro: under_task_body)

lemma step_inv: "step lib env cfg n flt s s' \<Longrightarrow> system_inv cfg flt s \<Longrightarrow> system_inv cfg flt s'"
proof (induction rule: step.induct)
  case (arrive crashed r m keys pool)
  have "upholds cfg flt (\<lambda>_. True) (\<lambda>_. flt) (await m (\<lambda>_. Return ()))"
    by (rule under_await [OF under_handleRequest [OF arrive(2)]]) simp
  with arrive show ?case by (auto simp: system_inv_def)
next
  case (perform crashed keys r x keys' pre k post)
  then have "relied cfg flt r x" "bindings_ok keys'"
    by (auto simp: system_inv_def relied_def bindings_ok_def [symmetric] intro: answers_bindings_ok)
  with perform show ?case by (auto simp: system_inv_def dest: started_upholds)
next
  case (fault crashed r keys pre k post e)
  then show ?case by (auto simp: system_inv_def relied_def)
qed (auto simp: system_inv_def bindings_ok_def)

lemma reachable_inv: "reachable lib env cfg n flt s \<Longrightarrow> system_inv cfg flt s"
  by (induction rule: reachable.induct) (auto simp: system_inv_def bindings_ok_def dest: step_inv)

section \<open>Schedules\<close>

text \<open>One member of the pool makes its next request.\<close>

lemma pool_step:
  "answers cfg keys r x keys' \<Longrightarrow>
     step lib env cfg n flt \<lparr>sys_keys = keys, sys_pool = pre @ Perform r k # post, sys_crashed = False\<rparr>
       \<lparr>sys_keys = keys', sys_pool = pre @ k x # post @ started cfg n r, sys_crashed = False\<rparr>"
  by (rule step.perform) simp_all

lemma quiet_step:
  "answers cfg keys r x keys' \<Longrightarrow> started cfg n r = [] \<Longrightarrow>
     step lib env cfg n flt \<lparr>sys_keys = keys, sys_pool = pre @ Perform r k # post, sys_crashed = False\<rparr>
       \<lparr>sys_keys = keys', sys_pool = pre @ k x # post, sys_crashed = False\<rparr>"
  using pool_step [of cfg keys r x keys' lib env n flt pre k post] by simp

text \<open>The first request of each, and what follows its response.\<close>

lemma provision_first:
  "\<exists>k. provisionVMAsync cfg n u = Perform (Http (create_request cfg u)) k
     \<and> (\<forall>e. k (Failed e) = await (updateVMBindingStatus u ErrorStatus (Some (error_fields e))) (\<lambda>_.
           try_catch (await (sendTextMessage cfg n u (StrV PROVISION_FAILED_TEXT)) (\<lambda>_. Return ())) (\<lambda>_. Return ())))
     \<and> (\<forall>code ip url. k (GotHttp \<lparr>rs_status = code, rs_data =
             obj [(''vm_ip'', ip), (''webhook_url'', url), (''status'', str_val ''running'')]\<rparr>) =
           try_catch
             (await date_now (\<lambda>created. await date_now (\<lambda>active.
              await (setVMBinding u (binding_val (vm_binding_of ip url Running created active))) (\<lambda>_.
              await (sendTextMessage cfg n u (StrV (READY_TEXT cfg u))) (\<lambda>_. Return ())))))
             (\<lambda>error. await (updateVMBindingStatus u ErrorStatus (Some (error_fields error))) (\<lambda>_.
                try_catch (await (sendTextMessage cfg n u (StrV PROVISION_FAILED_TEXT)) (\<lambda>_. Return ())) (\<lambda>_. Return ()))))"
  by (simp add: provisionVMAsync_def provision_steps_def createVM_def http_def js_simps flip: create_request_def)

text \<open>
  A failing orchestrator followed by a failing Redis command ends the process: the rejection of the
  \<open>catch\<close> block of \<open>provisionVMAsync\<close> has no handler.
\<close>

lemma provision_crash:
  obtains k k' where "provisionVMAsync cfg n u = Perform (Http (create_request cfg u)) k"
    and "k (Failed e) = Perform (RedisGet (binding_key u)) k'" and "k' (Failed e') = Throw e'"
    and "step lib env cfg n flt \<lparr>sys_keys = keys, sys_pool = pre @ provisionVMAsync cfg n u # post, sys_crashed = False\<rparr>
      \<lparr>sys_keys = keys, sys_pool = pre @ k (Failed e) # post, sys_crashed = False\<rparr>"
    and "step lib env cfg n True \<lparr>sys_keys = keys, sys_pool = pre @ k (Failed e) # post, sys_crashed = False\<rparr>
      \<lparr>sys_keys = keys, sys_pool = pre @ Throw e' # post, sys_crashed = False\<rparr>"
    and "step lib env cfg n flt \<lparr>sys_keys = keys, sys_pool = pre @ Throw e' # post, sys_crashed = False\<rparr>
      \<lparr>sys_keys = keys, sys_pool = pre @ Throw e' # post, sys_crashed = True\<rparr>"
proof -
  obtain k where k: "provisionVMAsync cfg n u = Perform (Http (create_request cfg u)) k"
    and f: "\<And>e. k (Failed e) = await (updateVMBindingStatus u ErrorStatus (Some (error_fields e))) (\<lambda>_.
        try_catch (await (sendTextMessage cfg n u (StrV PROVISION_FAILED_TEXT)) (\<lambda>_. Return ())) (\<lambda>_. Return ()))"
    using provision_first [of cfg n u] by blast
  obtain k' where k': "k (Failed e) = Perform (RedisGet (binding_key u)) k'" "k' (Failed e') = Throw e'"
    by (simp add: f updateVMBindingStatus_def getVMBinding_def redis_get_def)
  show thesis
  proof (rule that [OF k k'])
    show "step lib env cfg n flt \<lparr>sys_keys = keys, sys_pool = pre @ provisionVMAsync cfg n u # post, sys_crashed = False\<rparr>
        \<lparr>sys_keys = keys, sys_pool = pre @ k (Failed e) # post, sys_crashed = False\<rparr>"
      using step.perform [of False cfg keys "Http (create_request cfg u)" "Failed e" keys lib env n flt pre k post]
      by (simp add: k)
    show "step lib env cfg n True \<lparr>sys_keys = keys, sys_pool = pre @ k (Failed e) # post, sys_crashed = False\<rparr>
        \<lparr>sys_keys = keys, sys_pool = pre @ Throw e' # post, sys_crashed = False\<rparr>"
      using step.fault [of False True "RedisGet (binding_key u)" lib env cfg n keys pre k' post e'] k'
      by (simp add: redis_command_def)
    show "step lib env cfg n flt \<lparr>sys_keys = keys, sys_pool = pre @ Throw e' # post, sys_crashed = False\<rparr>
        \<lparr>sys_keys = keys, sys_pool = pre @ Throw e' # post, sys_crashed = True\<rparr>"
      by (rule step.crash) simp
  qed
qed

text \<open>
  A VM destroyed while it is still being provisioned comes back: the handler of \<open>destroy\<close> runs to its
  end, with the binding deleted, and the provisioning task then writes a running binding.
\<close>

definition destroy_handler :: "library \<Rightarrow> config \<Rightarrow> jsval \<Rightarrow> jsval \<Rightarrow> unit act" where
  "destroy_handler lib cfg u v = await (handleDestroyCommand lib cfg (sendReply cfg False) u v) (\<lambda>_. Return ())"

lemma destroy_schedule:
  fixes t :: int
  assumes t: "\<bar>t\<bar> < 10 ^ 21"
  shows "(step lib env cfg n flt)\<^sup>*\<^sup>*
    \<lparr>sys_keys = keys, sys_pool = pre @ destroy_handler lib cfg u v # post, sys_crashed = False\<rparr>
    \<lparr>sys_keys = keys(binding_key u := None), sys_pool = pre @ Return () # post, sys_crashed = False\<rparr>"
proof -
  let ?ok = "\<lparr>rs_status = 200, rs_data = Null\<rparr>"
  obtain k1 k2 k3 where
    k: "destroy_handler lib cfg u v = Perform (Http (destroy_request cfg u)) k1"
      "k1 (GotHttp ?ok) = Perform (RedisDel (binding_key u)) k2"
      "\<And>i. k2 (GotNum i) = Perform DateNow k3" "\<And>i. k3 (GotNum i) = Return ()"
    by (simp add: destroy_handler_def handleDestroyCommand_def destroyVM_def http_def deleteVMBinding_def redis_del_def
        say_def buildTextReply_def now_seconds_def date_now_def sendReply_def flip: destroy_request_def)
  let ?s = "\<lambda>ks m. \<lparr>sys_keys = ks, sys_pool = pre @ m # post, sys_crashed = False\<rparr>"
  have "step lib env cfg n flt (?s keys (destroy_handler lib cfg u v)) (?s keys (k1 (GotHttp ?ok)))"
    unfolding k(1) by (rule quiet_step) (simp_all add: vm_data_ok_def)
  moreover have "step lib env cfg n flt (?s keys (k1 (GotHttp ?ok)))
      (?s (keys(binding_key u := None)) (k2 (GotNum (if keys (binding_key u) = None then 0 else 1))))"
    unfolding k(2) by (rule quiet_step) simp_all
  moreover have "step lib env cfg n flt (?s (keys(binding_key u := None)) (k2 (GotNum i)))
      (?s (keys(binding_key u := None)) (k3 (GotNum t)))" for i
    unfolding k(3) by (rule quiet_step) (use t in simp_all)
  ultimately show ?thesis
    unfolding k(4) by (meson converse_rtranclp_into_rtranclp rtranclp.rtrancl_refl)
qed

lemma provision_schedule:
  assumes t: "\<bar>t\<bar> < 10 ^ 21" and "json_ok ip" "json_ok url"
  shows "\<exists>rest. (step lib env cfg n flt)\<^sup>*\<^sup>*
    \<lparr>sys_keys = keys, sys_pool = pre @ provisionVMAsync cfg n u # post, sys_crashed = False\<rparr>
    \<lparr>sys_keys = keys(binding_key u \<mapsto> stringify (binding_val (vm_binding_of ip url Running t t))),
     sys_pool = pre @ rest # post, sys_crashed = False\<rparr>"
proof -
  let ?ok = "\<lparr>rs_status = 200, rs_data = obj [(''vm_ip'', ip), (''webhook_url'', url), (''status'', str_val ''running'')]\<rparr>"
  let ?b = "binding_val (vm_binding_of ip url Running t t)"
  obtain k1 where k1: "provisionVMAsync cfg n u = Perform (Http (create_request cfg u)) k1"
    and k1_ok: "k1 (GotHttp ?ok) = try_catch
        (await date_now (\<lambda>created. await date_now (\<lambda>active.
         await (setVMBinding u (binding_val (vm_binding_of ip url Running created active))) (\<lambda>_.
         await (sendTextMessage cfg n u (StrV (READY_TEXT cfg u))) (\<lambda>_. Return ())))))
        (\<lambda>error. await (updateVMBindingStatus u ErrorStatus (Some (error_fields error))) (\<lambda>_.
           try_catch (await (sendTextMessage cfg n u (StrV PROVISION_FAILED_TEXT)) (\<lambda>_. Return ())) (\<lambda>_. Return ())))"
    using provision_first [of cfg n u] by blast
  obtain k2 k3 k4 where
    k: "k1 (GotHttp ?ok) = Perform DateNow k2" "k2 (GotNum t) = Perform DateNow k3"
      "k3 (GotNum t) = Perform (RedisSet (binding_key u) (stringify ?b) SetPlain) k4"
    by (simp add: k1_ok date_now_def setVMBinding_def redis_set_def)
  let ?s = "\<lambda>ks m. \<lparr>sys_keys = ks, sys_pool = pre @ m # post, sys_crashed = False\<rparr>"
  have d: "vm_data_ok (rs_data ?ok)"
    using assms(2,3) by (simp add: vm_data_ok_def opt_prop_def obj_def js_inj)
  have "step lib env cfg n flt (?s keys (provisionVMAsync cfg n u)) (?s keys (k1 (GotHttp ?ok)))"
    unfolding k1 by (rule quiet_step) (use d in simp_all)
  moreover have "step lib env cfg n flt (?s keys (k1 (GotHttp ?ok))) (?s keys (k2 (GotNum t)))"
    unfolding k(1) by (rule quiet_step) (use t in simp_all)
  moreover have "step lib env cfg n flt (?s keys (k2 (GotNum t))) (?s keys (k3 (GotNum t)))"
    unfolding k(2) by (rule quiet_step) (use t in simp_all)
  moreover have "step lib env cfg n flt (?s keys (k3 (GotNum t)))
      (?s (keys(binding_key u \<mapsto> stringify ?b)) (k4 (GotBool True)))"
    unfolding k(3) by (rule quiet_step) simp_all
  ultimately show ?thesis by (meson converse_rtranclp_into_rtranclp rtranclp.rtrancl_refl)
qed

section \<open>From the first message to a running VM\<close>

text \<open>A signed plain request that carries the subscribe event of user \<open>u\<close>.\<close>

definition subscribe_request :: "library \<Rightarrow> config \<Rightarrow> http_request \<Rightarrow> jsval \<Rightarrow> jsval \<Rightarrow> bool" where
  "subscribe_request lib cfg r u v \<longleftrightarrow>
     (let q = hr_query r in
      hr_method r = POST \<and> hr_path r = [js ''wechat'']
      \<and> given (q_signature q) \<and> given (q_timestamp q) \<and> given (q_nonce q) \<and> q_encrypt_type q \<noteq> Some (js ''aes'')
      \<and> validateSignature (wc_token (cf_wechat cfg)) (text_of (q_signature q)) (text_of (q_timestamp q)) (text_of (q_nonce q))
      \<and> (\<exists>m c. parseWeChatXml lib (hr_body r) = Inr m \<and> get_prop m ''FromUserName'' = Inr u
           \<and> get_prop m ''ToUserName'' = Inr v \<and> get_prop m ''MsgType'' = Inr (str_val ''event'')
           \<and> get_prop m ''Event'' = Inr (str_val ''subscribe'') \<and> get_prop m ''Content'' = Inr c))"

lemma subscribe_request_handler:
  assumes "subscribe_request lib cfg r u v"
  shows "handleRequest lib env cfg n r =
     Some (try_catch (handleNewUser lib (sendReply cfg False) u v) (\<lambda>e. Return (errorReply env e)))"
proof -
  have "postWechat lib cfg (hr_query r) (hr_body r) = handleNewUser lib (sendReply cfg False) u v"
    using assms by (auto simp: subscribe_request_def Let_def postWechat_def readMessage_def handleMessage_def)
  then show ?thesis
    using assms by (simp add: handleRequest_def dispatch_def subscribe_request_def Let_def)
qed

lemma new_user_schedule:
  fixes t :: int
  assumes t: "\<bar>t\<bar> < 10 ^ 21"
  shows "(step lib env cfg n flt)\<^sup>*\<^sup>*
    \<lparr>sys_keys = keys, sys_pool = pre @ await (try_catch (handleNewUser lib (sendReply cfg False) u v) h) (\<lambda>_. Return ()) # post,
     sys_crashed = False\<rparr>
    \<lparr>sys_keys = keys(binding_key u \<mapsto> stringify (binding_val (initial_binding t t))),
     sys_pool = pre @ Return () # post @ [provisionVMAsync cfg n u], sys_crashed = False\<rparr>"
proof -
  let ?m = "await (try_catch (handleNewUser lib (sendReply cfg False) u v) h) (\<lambda>_. Return ())"
  let ?b = "binding_val (initial_binding t t)"
  obtain k1 k2 k3 k4 k5 where
    k: "?m = Perform DateNow k1" "k1 (GotNum t) = Perform DateNow k2"
      "k2 (GotNum t) = Perform (RedisSet (binding_key u) (stringify ?b) SetPlain) k3"
      "k3 (GotBool True) = Perform (Spawn (ProvisionTask u)) k4" "k4 Done = Perform DateNow k5" "k5 (GotNum t) = Return ()"
    by (simp add: handleNewUser_def date_now_def setVMBinding_def redis_set_def spawn_def say_def buildTextReply_def
        now_seconds_def sendReply_def)
  let ?keys = "keys(binding_key u \<mapsto> stringify ?b)"
  let ?s = "\<lambda>ks m more. \<lparr>sys_keys = ks, sys_pool = pre @ m # post @ more, sys_crashed = False\<rparr>"
  have "step lib env cfg n flt (?s keys ?m []) (?s keys (k1 (GotNum t)) [])"
    unfolding k(1) by (rule quiet_step) (use t in simp_all)
  moreover have "step lib env cfg n flt (?s keys (k1 (GotNum t)) []) (?s keys (k2 (GotNum t)) [])"
    unfolding k(2) by (rule quiet_step) (use t in simp_all)
  moreover have "step lib env cfg n flt (?s keys (k2 (GotNum t)) []) (?s ?keys (k3 (GotBool True)) [])"
    unfolding k(3) by (rule quiet_step) simp_all
  moreover have "step lib env cfg n flt (?s ?keys (k3 (GotBool True)) []) (?s ?keys (k4 Done) [provisionVMAsync cfg n u])"
    unfolding k(4) using pool_step [of cfg ?keys "Spawn (ProvisionTask u)" Done ?keys lib env n flt pre k4 post] by simp
  moreover have "step lib env cfg n flt (?s ?keys (k4 Done) [provisionVMAsync cfg n u])
      (?s ?keys (Return ()) [provisionVMAsync cfg n u])"
    unfolding k(5) k(6) [symmetric] by (rule quiet_step) (use t in simp_all)
  ultimately show ?thesis by (simp only: append_Nil2)
qed

lemma first_contact_schedule:
  assumes "subscribe_request lib cfg r u v" and "\<bar>t\<bar> < 10 ^ 21" "json_ok ip" "json_ok url"
  shows "\<exists>rest. (step lib env cfg n flt)\<^sup>*\<^sup>*
    \<lparr>sys_keys = keys, sys_pool = pool, sys_crashed = False\<rparr>
    \<lparr>sys_keys = keys(binding_key u \<mapsto> stringify (binding_val (vm_binding_of ip url Running t t))),
     sys_pool = pool @ [Return (), rest], sys_crashed = False\<rparr>"
proof -
  let ?h = "\<lambda>e. Return (errorReply env e)"
  let ?m = "try_catch (handleNewUser lib (sendReply cfg False) u v) ?h"
  let ?keys = "keys(binding_key u \<mapsto> stringify (binding_val (initial_binding t t)))"
  have "step lib env cfg n flt \<lparr>sys_keys = keys, sys_pool = pool, sys_crashed = False\<rparr>
      \<lparr>sys_keys = keys, sys_pool = pool @ [await ?m (\<lambda>_. Return ())], sys_crashed = False\<rparr>"
    by (rule step.arrive [OF _ subscribe_request_handler [OF assms(1)]]) simp
  also have "(step lib env cfg n flt)\<^sup>*\<^sup>* \<dots>
      \<lparr>sys_keys = ?keys, sys_pool = pool @ Return () # [] @ [provisionVMAsync cfg n u], sys_crashed = False\<rparr>"
    by (rule new_user_schedule [OF assms(2)])
  finally have "(step lib env cfg n flt)\<^sup>*\<^sup>* \<lparr>sys_keys = keys, sys_pool = pool, sys_crashed = False\<rparr>
      \<lparr>sys_keys = ?keys, sys_pool = (pool @ [Return ()]) @ provisionVMAsync cfg n u # [], sys_crashed = False\<rparr>" by simp
  with provision_schedule [OF assms(2-4), of lib env cfg n flt ?keys "pool @ [Return ()]" u "[]"] show ?thesis
    by (auto dest: rtranclp_trans)
qed

end
