(* ===== verification/Commands.thy ===== *)
theory Commands
  imports WechatRoutes
begin

text \<open>
  The commands of the chat as a grammar, independent of the order in which \<open>routes/wechat.ts\<close> tries its
  regular expressions: a text denotes at most one command, and \<open>runCommand\<close> runs exactly that one.
\<close>

datatype command = Help | Status | Restart | Stop | Destroy | Passwd jsstr

fun denotes :: "jsstr \<Rightarrow> command \<Rightarrow> bool" where
  "denotes s Help \<longleftrightarrow> ci_eq s (js ''help'')"
| "denotes s Status \<longleftrightarrow> ci_eq s (js ''status'')"
| "denotes s Restart \<longleftrightarrow> ci_eq s (js ''restart'')"
| "denotes s Stop \<longleftrightarrow> ci_eq s (js ''stop'')"
| "denotes s Destroy \<longleftrightarrow> ci_eq s (js ''destroy'')"
| "denotes s (Passwd pw) \<longleftrightarrow> passwd_pattern s pw"

fun command_reply ::
    "library \<Rightarrow> config \<Rightarrow> (jsstr \<Rightarrow> reply act) \<Rightarrow> jsval \<Rightarrow> jsval \<Rightarrow> command \<Rightarrow> reply act" where
  "command_reply lib cfg send u v Help = say lib send u v (HELP_TEXT cfg u)"
| "command_reply lib cfg send u v Status = handleStatusCommand lib cfg send u v"
| "command_reply lib cfg send u v Restart = handleRestartCommand lib send u v"
| "command_reply lib cfg send u v Stop = handleStopCommand lib cfg send u v"
| "command_reply lib cfg send u v Destroy = handleDestroyCommand lib cfg send u v"
| "command_reply lib cfg send u v (Passwd pw) = handlePasswdCommand lib cfg send u v pw"

text \<open>The words differ in their letters, and the password command is longer than each of them.\<close>

definition command_words :: "string list" where
  "command_words = [''help'', ''status'', ''restart'', ''stop'', ''destroy'']"

lemma words_differ:
  "\<lbrakk>w \<in> set command_words; w' \<in> set command_words; ci_eq (js w) (js w')\<rbrakk> \<Longrightarrow> w = w'"
proof -
  have "list_all (\<lambda>w. list_all (\<lambda>w'. ci_eq (js w) (js w') \<longrightarrow> w = w') command_words) command_words"
    by code_simp
  then show "\<lbrakk>w \<in> set command_words; w' \<in> set command_words; ci_eq (js w) (js w')\<rbrakk> \<Longrightarrow> w = w'"
    by (simp add: list_all_iff)
qed

lemma word_excludes:
  assumes "ci_eq s (js w)" and "w \<in> set command_words"
  shows "w' \<in> set command_words \<Longrightarrow> ci_eq s (js w') \<longleftrightarrow> w' = w"
  using assms words_differ [of w w'] ci_eq_trans [of s "js w" "js w'"] by auto

lemma passwd_pattern_length: "passwd_pattern s pw \<Longrightarrow> 8 \<le> length s"
proof -
  assume "passwd_pattern s pw"
  then obtain kw gap where s: "s = kw @ gap @ pw" "ci_eq kw (js ''passwd'')" "gap \<noteq> []" "pw \<noteq> []"
    by (auto simp: passwd_pattern_def)
  then have "length kw = 6" "0 < length gap" "0 < length pw" using ci_eq_length [OF s(2)] by simp_all
  then show ?thesis unfolding s(1) length_append by linarith
qed

lemma passwd_no_word: "passwd_pattern s pw \<Longrightarrow> w \<in> set command_words \<Longrightarrow> \<not> ci_eq s (js w)"
  using ci_eq_length [of s "js w"] passwd_pattern_length [of s pw] by (auto simp: command_words_def)

lemma passwd_pattern_unique: "passwd_pattern s pw \<Longrightarrow> passwd_pattern s pw' \<Longrightarrow> pw = pw'"
  by (simp flip: PASSWD_REGEX_iff)

text \<open>A command other than the password one is its word.\<close>

fun word_of :: "command \<Rightarrow> string" where
  "word_of Help = ''help''"
| "word_of Status = ''status''"
| "word_of Restart = ''restart''"
| "word_of Stop = ''stop''"
| "word_of Destroy = ''destroy''"
| "word_of (Passwd pw) = []"

lemma command_words_simps [simp]:
  "w \<in> set command_words \<longleftrightarrow> w = ''help'' \<or> w = ''status'' \<or> w = ''restart'' \<or> w = ''stop'' \<or> w = ''destroy''"
  by (simp add: command_words_def)

lemma denotes_word: "denotes s c \<Longrightarrow> (\<forall>pw. c \<noteq> Passwd pw) \<Longrightarrow> ci_eq s (js (word_of c)) \<and> word_of c \<in> set command_words"
  by (cases c) simp_all

lemma denotes_unique:
  assumes "denotes s c" and "denotes s d"
  shows "c = d"
proof (cases "\<exists>pw. c = Passwd pw")
  case True
  then obtain pw where "c = Passwd pw" ..
  with assms passwd_no_word [of s pw] show ?thesis by (cases d) (auto intro: passwd_pattern_unique)
next
  case False
  with denotes_word [OF assms(1)] have c: "ci_eq s (js (word_of c))" "word_of c \<in> set command_words" by auto
  have "\<not> passwd_pattern s pw" for pw using passwd_no_word [OF _ c(2)] c(1) by blast
  with assms(2) word_excludes [OF c] False show ?thesis by (cases d; cases c) simp_all
qed

lemmas regex_words = runCommand_def regex_word_def HELP_REGEX_def STATUS_REGEX_def RESTART_REGEX_def STOP_REGEX_def
  DESTROY_REGEX_def

lemma runCommand_denotes_some:
  assumes "denotes s c"
  shows "runCommand lib cfg send u v s = Some (command_reply lib cfg send u v c)"
proof (cases "\<exists>pw. c = Passwd pw")
  case True
  then obtain pw where c: "c = Passwd pw" ..
  with assms have "PASSWD_REGEX s = Some pw" by (simp add: PASSWD_REGEX_iff)
  with c assms passwd_no_word [of s pw] show ?thesis by (simp add: regex_words)
next
  case False
  with denotes_word [OF assms] have c: "ci_eq s (js (word_of c))" "word_of c \<in> set command_words" by auto
  from word_excludes [OF c] False show ?thesis
    by (cases c) (simp_all add: regex_words)
qed

lemma runCommand_none:
  assumes "\<And>c. \<not> denotes s c"
  shows "runCommand lib cfg send u v s = None"
proof -
  have "PASSWD_REGEX s \<noteq> Some pw" for pw using assms [of "Passwd pw"] by (simp add: PASSWD_REGEX_iff)
  then have "PASSWD_REGEX s = None" by (cases "PASSWD_REGEX s") auto
  with assms [of Help] assms [of Status] assms [of Restart] assms [of Stop] assms [of Destroy]
  show ?thesis by (simp add: regex_words)
qed

lemma runCommand_denotes:
  "runCommand lib cfg send u v s = Some m \<longleftrightarrow> (\<exists>c. denotes s c \<and> m = command_reply lib cfg send u v c)"
proof (cases "\<exists>c. denotes s c")
  case True
  then obtain c where c: "denotes s c" ..
  then have "denotes s d \<longleftrightarrow> d = c" for d using denotes_unique [of s c d] by blast
  with runCommand_denotes_some [OF c, of lib cfg send u v] show ?thesis by auto
next
  case False
  then show ?thesis using runCommand_none [of s lib cfg send u v] by auto
qed

end
