(* ===== verification/Interfaces.thy ===== *)
theory Interfaces
  imports CallbackRoutes
begin

text \<open>
  The TypeScript interfaces of the bridge as records, with the objects they describe.  At run time an
  interface is a cast, so the code is modelled on dynamic values; here a value of the declared type is
  followed through the code: the text it leads to is given by a function on the record alone.
\<close>

section \<open>Objects with optional fields\<close>

definition present :: "(string \<times> jsval) list \<Rightarrow> (string \<times> jsval) list" where
  "present fs = filter (\<lambda>(k, v). v \<noteq> Undef) fs"

definition opt_str :: "jsstr option \<Rightarrow> jsval" where
  "opt_str x = (case x of None \<Rightarrow> Undef | Some s \<Rightarrow> StrV s)"

definition opt_num :: "jsnum option \<Rightarrow> jsval" where
  "opt_num x = (case x of None \<Rightarrow> Undef | Some n \<Rightarrow> NumV n)"

definition str_or :: "jsstr option \<Rightarrow> jsstr \<Rightarrow> jsstr" where
  "str_or x d = (case x of None \<Rightarrow> d | Some s \<Rightarrow> if s = [] then d else s)"

lemma get_prop_present:
  "distinct (map fst fs) \<Longrightarrow> get_prop (obj (present fs)) k = get_prop (obj fs) k"
proof (induction fs)
  case (Cons f fs)
  obtain k0 v0 where f: "f = (k0, v0)" by (cases f)
  have "get_prop (obj fs) k0 = Inr Undef" if "k0 \<notin> fst ` set fs"
    using that by (induction fs) (auto simp: js_simps)
  with Cons f show ?case by (auto simp: present_def js_simps)
qed (simp add: present_def)

lemma js_or_opt_str: "js_or (opt_str x) (StrV d) = StrV (str_or x d)"
  by (simp add: js_or_def opt_str_def str_or_def split: option.split)

section \<open>\<open>WeChatMessage\<close>\<close>

datatype msg_type = TextMsg | ImageMsg | VoiceMsg | VideoMsg | ShortVideoMsg | LocationMsg | LinkMsg | EventMsg

fun msg_type_str :: "msg_type \<Rightarrow> jsstr" where
  "msg_type_str TextMsg = js ''text''"
| "msg_type_str ImageMsg = js ''image''"
| "msg_type_str VoiceMsg = js ''voice''"
| "msg_type_str VideoMsg = js ''video''"
| "msg_type_str ShortVideoMsg = js ''shortvideo''"
| "msg_type_str LocationMsg = js ''location''"
| "msg_type_str LinkMsg = js ''link''"
| "msg_type_str EventMsg = js ''event''"

record wechat_message =
  wm_ToUserName :: jsstr
  wm_FromUserName :: jsstr
  wm_CreateTime :: int
  wm_MsgType :: msg_type
  wm_Content :: "jsstr option"
  wm_MsgId :: "jsstr option"
  wm_Event :: "jsstr option"
  wm_EventKey :: "jsstr option"
  wm_PicUrl :: "jsstr option"
  wm_MediaId :: "jsstr option"
  wm_Format :: "jsstr option"
  wm_Recognition :: "jsstr option"
  wm_ThumbMediaId :: "jsstr option"
  wm_Location_X :: "jsnum option"
  wm_Location_Y :: "jsnum option"
  wm_Scale :: "jsnum option"
  wm_Label :: "jsstr option"
  wm_Title :: "jsstr option"
  wm_Description :: "jsstr option"
  wm_Url :: "jsstr option"

definition message_fields :: "wechat_message \<Rightarrow> (string \<times> jsval) list" where
  "message_fields m =
     [(''ToUserName'', StrV (wm_ToUserName m)), (''FromUserName'', StrV (wm_FromUserName m)),
      (''CreateTime'', int_val (wm_CreateTime m)), (''MsgType'', StrV (msg_type_str (wm_MsgType m))),
      (''Content'', opt_str (wm_Content m)), (''MsgId'', opt_str (wm_MsgId m)), (''Event'', opt_str (wm_Event m)),
      (''EventKey'', opt_str (wm_EventKey m)), (''PicUrl'', opt_str (wm_PicUrl m)), (''MediaId'', opt_str (wm_MediaId m)),
      (''Format'', opt_str (wm_Format m)), (''Recognition'', opt_str (wm_Recognition m)),
      (''ThumbMediaId'', opt_str (wm_ThumbMediaId m)), (''Location_X'', opt_num (wm_Location_X m)),
      (''Location_Y'', opt_num (wm_Location_Y m)), (''Scale'', opt_num (wm_Scale m)), (''Label'', opt_str (wm_Label m)),
      (''Title'', opt_str (wm_Title m)), (''Description'', opt_str (wm_Description m)), (''Url'', opt_str (wm_Url m))]"

definition message_val :: "wechat_message \<Rightarrow> jsval" where
  "message_val m = obj (present (message_fields m))"

lemma opt_prop_get_prop: "get_prop v k = Inr x \<Longrightarrow> opt_prop v k = x"
  by (cases v) (simp_all add: opt_prop_def)

lemma get_prop_message: "get_prop (message_val m) k = get_prop (obj (message_fields m)) k"
  unfolding message_val_def by (rule get_prop_present) (simp add: message_fields_def)

lemma message_val_fields:
  "get_prop (message_val m) ''ToUserName'' = Inr (StrV (wm_ToUserName m))"
  "get_prop (message_val m) ''FromUserName'' = Inr (StrV (wm_FromUserName m))"
  "get_prop (message_val m) ''CreateTime'' = Inr (int_val (wm_CreateTime m))"
  "get_prop (message_val m) ''MsgType'' = Inr (StrV (msg_type_str (wm_MsgType m)))"
  "get_prop (message_val m) ''Content'' = Inr (opt_str (wm_Content m))"
  "get_prop (message_val m) ''MsgId'' = Inr (opt_str (wm_MsgId m))"
  "get_prop (message_val m) ''Event'' = Inr (opt_str (wm_Event m))"
  "get_prop (message_val m) ''PicUrl'' = Inr (opt_str (wm_PicUrl m))"
  "get_prop (message_val m) ''Recognition'' = Inr (opt_str (wm_Recognition m))"
  "get_prop (message_val m) ''Location_X'' = Inr (opt_num (wm_Location_X m))"
  "get_prop (message_val m) ''Location_Y'' = Inr (opt_num (wm_Location_Y m))"
  "get_prop (message_val m) ''Label'' = Inr (opt_str (wm_Label m))"
  "get_prop (message_val m) ''Title'' = Inr (opt_str (wm_Title m))"
  "get_prop (message_val m) ''Description'' = Inr (opt_str (wm_Description m))"
  "get_prop (message_val m) ''Url'' = Inr (opt_str (wm_Url m))"
  unfolding get_prop_message by (simp_all add: message_fields_def js_simps)

section \<open>The task of a typed message\<close>

definition coordinate :: "jsnum option \<Rightarrow> jsstr" where
  "coordinate x = (case x of None \<Rightarrow> js ''undefined'' | Some n \<Rightarrow> num_str n)"

fun task_text_of :: "msg_type \<Rightarrow> wechat_message \<Rightarrow> jsstr" where
  "task_text_of TextMsg m = str_or (wm_Content m) []"
| "task_text_of VoiceMsg m = str_or (wm_Recognition m) unrecognised_voice"
| "task_text_of ImageMsg m = image_prefix @ str_or (wm_PicUrl m) []"
| "task_text_of LocationMsg m = longitude_prefix @ coordinate (wm_Location_Y m) @ latitude_infix
     @ coordinate (wm_Location_X m) @ js '', '' @ str_or (wm_Label m) []"
| "task_text_of LinkMsg m = link_prefix @ str_or (wm_Title m) [] @ units [10] @ str_or (wm_Description m) []
     @ units [10] @ str_or (wm_Url m) []"
| "task_text_of VideoMsg m = js ''[video'' @ message_suffix"
| "task_text_of ShortVideoMsg m = js ''[shortvideo'' @ message_suffix"
| "task_text_of EventMsg m = js ''[event'' @ message_suffix"

lemma to_str_coordinate: "to_str (opt_num x) = coordinate x"
  by (simp add: opt_num_def coordinate_def split: option.split)

lemmas message_opt_props = message_val_fields [THEN opt_prop_get_prop]

lemma task_content_typed: "task_content (message_val m) = Inr (StrV (task_text_of (wm_MsgType m) m))"
  by (cases "wm_MsgType m")
    (simp_all add: task_content_def message_val_fields message_opt_props js_or_opt_str to_str_coordinate js_inj flip: js_append)

section \<open>\<open>ClawdbotWebhookPayload\<close>\<close>

record clawdbot_payload =
  cw_task :: jsstr
  cw_callback_url :: jsstr
  cw_openid :: jsstr
  cw_msg_type :: jsstr
  cw_msg_id :: "jsstr option"
  cw_timestamp :: int

definition payload_val :: "clawdbot_payload \<Rightarrow> jsval" where
  "payload_val p =
     obj [(''task'', StrV (cw_task p)), (''callback_url'', StrV (cw_callback_url p)),
          (''metadata'', obj [(''openid'', StrV (cw_openid p)), (''msg_type'', StrV (cw_msg_type p)),
             (''msg_id'', opt_str (cw_msg_id p)), (''timestamp'', int_val (cw_timestamp p))])]"

definition payload_of :: "config \<Rightarrow> wechat_message \<Rightarrow> clawdbot_payload" where
  "payload_of cfg m =
     \<lparr>cw_task = task_text_of (wm_MsgType m) m,
      cw_callback_url = br_baseUrl (cf_bridge cfg) @ js ''/callback/'' @ wm_FromUserName m,
      cw_openid = wm_FromUserName m, cw_msg_type = msg_type_str (wm_MsgType m), cw_msg_id = wm_MsgId m,
      cw_timestamp = wm_CreateTime m\<rparr>"

lemma webhook_payload_typed:
  "task_content (message_val m) = Inr t \<Longrightarrow> webhook_payload cfg (message_val m) t = payload_val (payload_of cfg m)"
  by (simp add: task_content_typed webhook_payload_def payload_val_def payload_of_def message_opt_props callback_url_def)

section \<open>\<open>ClawdbotCallbackPayload\<close>\<close>

record callback_metadata =
  cm_chunks :: "jsnum option"
  cm_thinking_time_ms :: "jsnum option"

record callback_payload =
  cb_success :: bool
  cb_result :: "jsstr option"
  cb_error :: "jsstr option"
  cb_metadata :: "callback_metadata option"

definition metadata_val :: "callback_metadata option \<Rightarrow> jsval" where
  "metadata_val md = (case md of None \<Rightarrow> Undef
     | Some d \<Rightarrow> obj (present [(''chunks'', opt_num (cm_chunks d)), (''thinking_time_ms'', opt_num (cm_thinking_time_ms d))]))"

definition callback_val :: "callback_payload \<Rightarrow> jsval" where
  "callback_val p =
     obj (present [(''success'', BoolV (cb_success p)), (''result'', opt_str (cb_result p)),
       (''error'', opt_str (cb_error p)), (''metadata'', metadata_val (cb_metadata p))])"

definition thinking_note :: "callback_metadata option \<Rightarrow> jsstr" where
  "thinking_note md =
     (case md of None \<Rightarrow> [] | Some d \<Rightarrow>
       (case cm_thinking_time_ms d of None \<Rightarrow> []
        | Some n \<Rightarrow> if num_truthy n then THINKING_INFIX @ thinking_seconds n @ js ''s'' else []))"

definition callback_text :: "callback_payload \<Rightarrow> jsstr" where
  "callback_text p =
     (if cb_success p then str_or (cb_result p) NO_RESULT_TEXT
      else FAILED_PREFIX @ str_or (cb_error p) UNKNOWN_ERROR) @ thinking_note (cb_metadata p)"

lemma callback_val_fields:
  "get_prop (callback_val p) ''success'' = Inr (BoolV (cb_success p))"
  "get_prop (callback_val p) ''result'' = Inr (opt_str (cb_result p))"
  "get_prop (callback_val p) ''error'' = Inr (opt_str (cb_error p))"
  "get_prop (callback_val p) ''metadata'' = Inr (metadata_val (cb_metadata p))"
  unfolding callback_val_def by (simp_all add: get_prop_present js_simps)

lemma thinking_prop:
  "opt_prop (metadata_val md) ''thinking_time_ms'' =
     (case md of None \<Rightarrow> Undef | Some d \<Rightarrow> opt_num (cm_thinking_time_ms d))"
proof (cases md)
  case (Some d)
  have "get_prop (metadata_val md) ''thinking_time_ms'' = Inr (opt_num (cm_thinking_time_ms d))"
    unfolding Some metadata_val_def by (simp add: get_prop_present js_simps)
  then show ?thesis using Some by (simp add: opt_prop_get_prop)
qed (simp add: metadata_val_def opt_prop_def)

lemma callback_content_typed:
  "callback_content (BoolV (cb_success p)) (opt_str (cb_result p)) (opt_str (cb_error p)) (metadata_val (cb_metadata p)) =
     StrV (callback_text p)"
  unfolding callback_content_def thinking_prop
  by (auto simp: Let_def js_or_opt_str callback_text_def thinking_note_def opt_num_def js_add_def stringish_def
      split: option.split)

section \<open>\<open>VMInfo\<close>\<close>

record vm_info =
  vi_user_id :: jsstr
  vi_status :: vm_status
  vi_vm_ip :: jsstr
  vi_webhook_url :: jsstr
  vi_created_at :: jsstr
  vi_stopped_at :: "jsstr option"
  vi_error_message :: "jsstr option"
  vi_vcpu_count :: int
  vi_mem_size_mib :: int

definition vm_info_fields :: "vm_info \<Rightarrow> (string \<times> jsval) list" where
  "vm_info_fields i =
     [(''user_id'', StrV (vi_user_id i)), (''status'', StrV (status_str (vi_status i))),
      (''vm_ip'', StrV (vi_vm_ip i)), (''webhook_url'', StrV (vi_webhook_url i)), (''created_at'', StrV (vi_created_at i)),
      (''stopped_at'', opt_str (vi_stopped_at i)), (''error_message'', opt_str (vi_error_message i)),
      (''resource_limits'', obj [(''vcpu_count'', int_val (vi_vcpu_count i)), (''mem_size_mib'', int_val (vi_mem_size_mib i))])]"

text \<open>
  A value of the interface: an object whose declared fields are these; it may have others, as the answers
  of the orchestrator do (\<open>tap_device\<close>, \<open>socket_path\<close>, \<open>pid\<close>).
\<close>

definition is_vm_info :: "jsval \<Rightarrow> vm_info \<Rightarrow> bool" where
  "is_vm_info v i \<longleftrightarrow> (\<exists>kvs. v = ObjV kvs) \<and> list_all (\<lambda>(k, x). opt_prop v k = x) (vm_info_fields i)"

lemma is_vm_infoD:
  assumes "is_vm_info v i"
  shows "truthy v" "opt_prop v ''vm_ip'' = StrV (vi_vm_ip i)" "opt_prop v ''webhook_url'' = StrV (vi_webhook_url i)"
    "opt_prop v ''status'' = StrV (status_str (vi_status i))"
  using assms by (auto simp: is_vm_info_def vm_info_fields_def)

end
