(* ===== verification/Lifecycle.thy ===== *)
theory Lifecycle
  imports Concurrency Commands Interfaces
begin

text \<open>
  The service as a family of state machines, one per user.  The events of a user (his messages, with
  what the orchestrator granted, the ends of the background tasks about him, and the entries the
  orchestrator itself stores for him) drive the state of his VM by a function of its own, \<open>vm_next\<close>.  Any
  sequence of messages and tasks, each run to its end, and of entries stored in between, is a run of the
  machines in which an operation moves the machine of its own user only.
\<close>

section \<open>The machine\<close>

datatype user_action = Subscribe | Ask command | Ordinary | Ignored

datatype vm_event =
    User user_action bool
  | Provisioned "vm_status option"
  | Restarted bool
  | Wrote vm_state

fun failed_task :: "vm_state \<Rightarrow> vm_state" where
  "failed_task NoVM = NoVM"
| "failed_task s = Has ErrorStatus"

fun vm_next :: "vm_event \<Rightarrow> vm_state \<Rightarrow> vm_state" where
  "vm_next (User Subscribe granted) s = Has Provisioning"
| "vm_next (User Ordinary granted) s = route_state s"
| "vm_next (User (Ask Restart) granted) s = (if s = NoVM then NoVM else Has Provisioning)"
| "vm_next (User (Ask Stop) granted) s = (if granted \<and> s \<noteq> NoVM then Has Stopped else s)"
| "vm_next (User (Ask Destroy) granted) s = (if granted then NoVM else s)"
| "vm_next (Provisioned (Some status)) s = Has status"
| "vm_next (Provisioned None) s = failed_task s"
| "vm_next (Restarted True) s = Has Running"
| "vm_next (Restarted False) s = failed_task s"
| "vm_next (Wrote t) s = t"
| "vm_next _ s = s"

lemma failed_task_simps [simp]:
  "failed_task s = NoVM \<longleftrightarrow> s = NoVM" "s \<noteq> NoVM \<Longrightarrow> failed_task s = Has ErrorStatus" "failed_task s \<noteq> Strange"
  by (cases s; simp)+

text \<open>No event leads to a status the routing does not know, unless the orchestrator stores one.\<close>

lemma route_state_known: "s \<noteq> Strange \<Longrightarrow> route_state s \<noteq> Strange"
  by (cases s rule: route_state.cases) simp_all

lemma vm_next_known: "s \<noteq> Strange \<Longrightarrow> e \<noteq> Wrote Strange \<Longrightarrow> vm_next e s \<noteq> Strange"
proof (cases e)
  case (User a g)
  assume s: "s \<noteq> Strange"
  show ?thesis
  proof (cases a)
    case (Ask c)
    with User s show ?thesis by (cases c) simp_all
  qed (use User s route_state_known in simp_all)
next
  case (Provisioned p)
  then show ?thesis by (cases p) simp_all
next
  case (Restarted b)
  then show ?thesis by (cases b) simp_all
qed simp

lemma fold_known: "s \<noteq> Strange \<Longrightarrow> Wrote Strange \<notin> set es \<Longrightarrow> fold vm_next es s \<noteq> Strange"
proof (induction es arbitrary: s)
  case (Cons e es)
  then have "vm_next e s \<noteq> Strange" by (intro vm_next_known) auto
  from Cons.IH [OF this] Cons.prems(2) show ?case by simp
qed simp

section \<open>What a message means\<close>

text \<open>
  A message is whatever the parser made of the body: a subscription, a command of the grammar, an
  ordinary message, or one without effect (another event, no object at all, a text whose content is
  not a string).
\<close>

fun means :: "jsval \<Rightarrow> user_action \<Rightarrow> bool" where
  "means m Subscribe \<longleftrightarrow> opt_prop m ''MsgType'' = str_val ''event'' \<and> opt_prop m ''Event'' = str_val ''subscribe''"
| "means m (Ask c) \<longleftrightarrow> opt_prop m ''MsgType'' = str_val ''text''
     \<and> (\<exists>s. opt_prop m ''Content'' = StrV s \<and> s \<noteq> [] \<and> denotes (trim s) c)"
| "means m Ignored \<longleftrightarrow> m = Undef \<or> m = Null
     \<or> opt_prop m ''MsgType'' = str_val ''event'' \<and> opt_prop m ''Event'' \<noteq> str_val ''subscribe''
     \<or> opt_prop m ''MsgType'' = str_val ''text'' \<and> truthy (opt_prop m ''Content'') \<and> \<not> (\<exists>s. opt_prop m ''Content'' = StrV s)"
| "means m Ordinary \<longleftrightarrow> m \<noteq> Undef \<and> m \<noteq> Null \<and> opt_prop m ''MsgType'' \<noteq> str_val ''event''
     \<and> (opt_prop m ''MsgType'' = str_val ''text'' \<and> truthy (opt_prop m ''Content'') \<longrightarrow>
          (\<exists>s. opt_prop m ''Content'' = StrV s \<and> (\<forall>c. \<not> denotes (trim s) c)))"

lemma means_total: "\<exists>a. means m a"
proof (cases "m = Undef \<or> m = Null \<or> opt_prop m ''MsgType'' = str_val ''event''")
  case True
  then show ?thesis using means.simps(1,3) by blast
next
  case event: False
  show ?thesis
  proof (cases "opt_prop m ''MsgType'' = str_val ''text'' \<and> truthy (opt_prop m ''Content'')")
    case worded: True
    show ?thesis
    proof (cases "\<exists>s. opt_prop m ''Content'' = StrV s")
      case True
      then obtain s where s: "opt_prop m ''Content'' = StrV s" "s \<noteq> []" using worded by auto
      show ?thesis
      proof (cases "\<exists>c. denotes (trim s) c")
        case True
        then obtain c where "denotes (trim s) c" ..
        with s worded have "means m (Ask c)" unfolding means.simps by blast
        then show ?thesis ..
      next
        case False
        with s worded event have "means m Ordinary" unfolding means.simps by blast
        then show ?thesis ..
      qed
    next
      case False
      with worded have "means m Ignored" unfolding means.simps by blast
      then show ?thesis ..
    qed
  next
    case False
    with event have "means m Ordinary" unfolding means.simps by blast
    then show ?thesis ..
  qed
qed

text \<open>The handler of a message, by what the message means.\<close>

fun action_reply :: "library \<Rightarrow> config \<Rightarrow> (jsstr \<Rightarrow> reply act) \<Rightarrow> jsval \<Rightarrow> user_action \<Rightarrow> reply act" where
  "action_reply lib cfg send m Subscribe =
     handleNewUser lib send (opt_prop m ''FromUserName'') (opt_prop m ''ToUserName'')"
| "action_reply lib cfg send m (Ask c) =
     command_reply lib cfg send (opt_prop m ''FromUserName'') (opt_prop m ''ToUserName'') c"
| "action_reply lib cfg send m Ordinary =
     routeMessage lib cfg send m (opt_prop m ''FromUserName'') (opt_prop m ''ToUserName'')"
| "action_reply lib cfg send m Ignored = Return (typed_reply ''text/plain'' [])"

lemma readable: "m \<noteq> Undef \<Longrightarrow> m \<noteq> Null \<Longrightarrow> get_prop m k = Inr (opt_prop m k)"
  by (cases m) (simp_all add: opt_prop_def)

lemma handleMessage_readable:
  assumes "m \<noteq> Undef" "m \<noteq> Null"
  defines "u \<equiv> opt_prop m ''FromUserName''" and "v \<equiv> opt_prop m ''ToUserName''"
  shows "handleMessage lib cfg send m =
    (if opt_prop m ''MsgType'' = str_val ''event''
     then if opt_prop m ''Event'' = str_val ''subscribe'' then handleNewUser lib send u v
          else Return (typed_reply ''text/plain'' [])
     else if opt_prop m ''MsgType'' = str_val ''text'' \<and> truthy (opt_prop m ''Content'')
     then await (lift_sum (trim_content (opt_prop m ''Content''))) (\<lambda>t.
            case runCommand lib cfg send u v t of
              Some reply \<Rightarrow> reply
            | None \<Rightarrow> routeMessage lib cfg send m u v)
     else routeMessage lib cfg send m u v)"
  unfolding u_def v_def by (simp add: handleMessage_def readable [OF assms(1,2)])

lemma handleMessage_means:
  assumes "means m a" "a \<noteq> Ignored"
  shows "handleMessage lib cfg send m = action_reply lib cfg send m a"
proof -
  have m: "m \<noteq> Undef" "m \<noteq> Null" using assms by (cases a; auto simp: opt_prop_def)+
  note h = handleMessage_readable [OF m, of lib cfg send]
  show ?thesis
  proof (cases a)
    case (Ask c)
    with assms(1) obtain s where s: "opt_prop m ''MsgType'' = str_val ''text''" "opt_prop m ''Content'' = StrV s" "s \<noteq> []"
      "denotes (trim s) c" by auto
    then show ?thesis using Ask h runCommand_denotes_some [OF s(4)] by (simp add: trim_content_def js_inj)
  next
    case Ordinary
    then show ?thesis using assms(1) h runCommand_none by (auto simp: trim_content_def)
  qed (use assms h in simp_all)
qed

lemma run_ignored:
  assumes "means m Ignored"
  shows "snd (run sv (handleMessage lib cfg send m) w) = w"
proof (cases "m = Undef \<or> m = Null")
  case True
  then show ?thesis by (auto simp: handleMessage_def)
next
  case False
  then have m: "m \<noteq> Undef" "m \<noteq> Null" by simp_all
  from assms False show ?thesis
    by (auto simp: handleMessage_readable [OF m] trim_content_def js_inj split: jsval.splits)
qed

section \<open>The way of replying does not matter\<close>

text \<open>
  Whatever becomes of the encryption of a reply, the handlers leave the same world: \<open>same_end m m'\<close>.
\<close>

definition still :: "'a act \<Rightarrow> bool" where
  "still m \<longleftrightarrow> (\<forall>w. snd (run ref_service m w) = w)"

definition same_end :: "'a act \<Rightarrow> 'a act \<Rightarrow> bool" where
  "same_end m m' \<longleftrightarrow> (\<forall>w. snd (run ref_service m w) = snd (run ref_service m' w))"

named_theorems same_intros

lemma still_requests: "requests (\<lambda>r. \<forall>w. snd (ref_service w r) = w) m \<Longrightarrow> still m"
  unfolding still_def
proof
  fix w
  assume "requests (\<lambda>r. \<forall>w. snd (ref_service w r) = w) m"
  from run_invariant [OF this, of "\<lambda>w'. w' = w" w ref_service] show "snd (run ref_service m w) = w" by simp
qed

lemma still_say: "still (say lib (sendReply cfg enc) u v c)"
  by (intro still_requests requests_say requests_sendReply) simp_all

lemma same_say [same_intros]:
  "same_end (say lib (sendReply cfg enc) u v c) (say lib (sendReply cfg enc') u v c)"
  using still_say [of lib cfg] by (simp add: still_def same_end_def)

lemma same_await [same_intros]: "(\<And>x. same_end (f x) (g x)) \<Longrightarrow> same_end (await m f) (await m g)"
  by (auto simp: same_end_def run_await split: prod.split outcome.split)

lemma end_try_catch: "(\<And>e. still (h e)) \<Longrightarrow> snd (run ref_service (try_catch m h) w) = snd (run ref_service m w)"
  by (auto simp: still_def run_try_catch split: prod.split outcome.split)

lemma same_try_catch [same_intros]:
  "same_end m m' \<Longrightarrow> (\<And>e. still (h e)) \<Longrightarrow> (\<And>e. still (h' e)) \<Longrightarrow> same_end (try_catch m h) (try_catch m' h')"
  by (simp add: same_end_def end_try_catch)

lemma same_if [same_intros]:
  "(b \<Longrightarrow> same_end m m') \<Longrightarrow> (\<not> b \<Longrightarrow> same_end n n') \<Longrightarrow> same_end (if b then m else n) (if b then m' else n')"
  by simp

lemma same_handlers:
  "same_end (handleNewUser lib (sendReply cfg enc) u v) (handleNewUser lib (sendReply cfg enc') u v)"
  "same_end (handleStatusCommand lib cfg (sendReply cfg enc) u v) (handleStatusCommand lib cfg (sendReply cfg enc') u v)"
  "same_end (handleRestartCommand lib (sendReply cfg enc) u v) (handleRestartCommand lib (sendReply cfg enc') u v)"
  "same_end (handleStopCommand lib cfg (sendReply cfg enc) u v) (handleStopCommand lib cfg (sendReply cfg enc') u v)"
  "same_end (handleDestroyCommand lib cfg (sendReply cfg enc) u v) (handleDestroyCommand lib cfg (sendReply cfg enc') u v)"
  "same_end (handlePasswdCommand lib cfg (sendReply cfg enc) u v pw) (handlePasswdCommand lib cfg (sendReply cfg enc') u v pw)"
  unfolding handleNewUser_def handleStatusCommand_def handleRestartCommand_def handleStopCommand_def
    handleDestroyCommand_def handlePasswdCommand_def
  by (intro same_intros still_say)+

lemma same_route:
  "same_end (routeMessage lib cfg (sendReply cfg enc) m u v) (routeMessage lib cfg (sendReply cfg enc') m u v)"
  unfolding routeMessage_def by (intro same_intros same_handlers)

lemma same_action:
  "same_end (action_reply lib cfg (sendReply cfg enc) m a) (action_reply lib cfg (sendReply cfg enc') m a)"
proof (cases a)
  case (Ask c)
  then show ?thesis by (cases c) (simp_all add: same_handlers same_say)
qed (simp_all add: same_handlers same_route, simp add: same_end_def)

section \<open>Entries of the orchestrator move the machine\<close>

definition moves :: "jsval \<Rightarrow> vm_event list \<Rightarrow> keyspace \<Rightarrow> keyspace \<Rightarrow> bool" where
  "moves u es w w' \<longleftrightarrow> abs_state (ks_binding w' u) = fold vm_next es (abs_state (ks_binding w u))
     \<and> same_users u w w' \<and> world_ok w'"

lemma moves_trans: "moves u es w w1 \<Longrightarrow> moves u es' w1 w2 \<Longrightarrow> moves u (es @ es') w w2"
  by (simp add: moves_def same_users_def)

text \<open>What the orchestrator stores for the user \<open>u\<close> while it serves the request \<open>q\<close>, one event for each entry.\<close>

definition stored :: "jsstr option \<Rightarrow> vm_event" where
  "stored e = Wrote (abs_state (decode_binding e))"

definition wrote :: "keyspace \<Rightarrow> jsval \<Rightarrow> http_req \<Rightarrow> vm_event list" where
  "wrote w u q = map (\<lambda>(x, e). stored e) (filter (\<lambda>(x, e). x = to_str u) (ks_orch w (length (ks_sent w)) q))"

definition slot_state :: "(jsstr \<times> int option) option \<Rightarrow> vm_state" where
  "slot_state e = abs_state (decode_binding (map_option fst e))"

lemma slot_state_world: "world_ok w \<Longrightarrow> slot_state (ks_map w (binding_key u)) = abs_state (ks_binding w u)"
proof (cases "ks_map w (binding_key u)")
  case (Some p)
  assume "world_ok w"
  with Some have "snd p = None" by (cases p; cases "snd p") (auto simp: world_ok_def)
  with Some show ?thesis by (cases p) (simp add: slot_state_def ks_binding_slot)
qed (simp add: slot_state_def ks_binding_slot)

lemma fold_orch_state:
  "slot_state (fold orch_write ws m (VM_BINDING_PREFIX @ k)) =
     fold vm_next (map (\<lambda>(x, e). stored e) (filter (\<lambda>(x, e). x = k) ws)) (slot_state (m (VM_BINDING_PREFIX @ k)))"
proof (induction ws arbitrary: m)
  case (Cons a ws)
  obtain x e where a: "a = (x, e)" by fastforce
  have "slot_state (orch_write (x, e) m (VM_BINDING_PREFIX @ k)) =
      (if x = k then abs_state (decode_binding e) else slot_state (m (VM_BINDING_PREFIX @ k)))"
    by (cases e) (auto simp: slot_state_def)
  with Cons.IH [of "orch_write (x, e) m"] show ?case
    by (cases "x = k") (simp_all add: a stored_def del: orch_write.simps)
qed simp

lemma exchange_moves:
  assumes "world_ok w" "orch_ok cfg w" "vm_exchange cfg u q"
  shows "moves u (wrote w u q) w (ks_next w q)"
proof -
  note ok = world_ok_next [OF assms(1,2), of q]
  have "slot_state (ks_map (ks_next w q) (binding_key u)) = fold vm_next (wrote w u q) (slot_state (ks_map w (binding_key u)))"
    unfolding ks_next_def wrote_def binding_key_def by (simp add: fold_orch_state)
  with ok same_users_next [OF assms(2,3)] show ?thesis
    by (simp add: moves_def slot_state_world [OF assms(1)] slot_state_world [OF ok])
qed

lemma stored_known: "(\<And>s. e = Some s \<Longrightarrow> orch_entry s) \<Longrightarrow> stored e \<noteq> Wrote Strange"
proof (cases e)
  case (Some s)
  assume "\<And>s. e = Some s \<Longrightarrow> orch_entry s"
  from orch_entry_slot [OF this [OF Some], of "\<lambda>s. s \<noteq> Strange"] Some show ?thesis by (simp add: stored_def)
qed (simp add: stored_def)

lemma wrote_known: "orch_ok cfg w \<Longrightarrow> Wrote Strange \<notin> set (wrote w u q)"
proof -
  assume o: "orch_ok cfg w"
  have "stored e \<noteq> Wrote Strange" if "(x, e) \<in> set (ks_orch w (length (ks_sent w)) q)" for x e
    by (rule stored_known) (use o that in \<open>unfold orch_ok_def, blast\<close>)
  then show ?thesis by (fastforce simp: wrote_def)
qed

section \<open>Messages move the machine\<close>

text \<open>The request to the orchestrator that an action makes, and whether it was granted, in this world.\<close>

fun asked :: "config \<Rightarrow> jsval \<Rightarrow> user_action \<Rightarrow> http_req option" where
  "asked cfg u (Ask Stop) = Some (stop_request cfg u)"
| "asked cfg u (Ask Destroy) = Some (destroy_request cfg u)"
| "asked cfg u (Ask (Passwd pw)) = (if length pw < 8 then None else Some (passwd_request cfg u pw))"
| "asked cfg u _ = None"

definition action_events :: "config \<Rightarrow> keyspace \<Rightarrow> jsval \<Rightarrow> user_action \<Rightarrow> vm_event list" where
  "action_events cfg w u a = (case asked cfg u a of
     None \<Rightarrow> [User a True]
   | Some q \<Rightarrow> wrote w u q @ [User a (answered (ks_answer w q))])"

lemma outcome_moves:
  assumes "outcome_of same lib u v w m s ts qs content" and "same \<in> {same_others, same_users}"
    and "s = fold vm_next es (abs_state (ks_binding w u))"
  shows "moves u es w (snd (run ref_service m w))"
  using assms by (auto simp: outcome_of_def moves_def split: prod.splits outcome.splits)

lemma command_moves:
  assumes "world_ok w" "orch_ok cfg w"
  shows "moves u (action_events cfg w u (Ask c)) w
    (snd (run ref_service (command_reply lib cfg (sendReply cfg False) u v c) w))"
proof (cases c)
  case Help
  show ?thesis unfolding Help command_reply.simps
    by (intro outcome_moves [OF outcome_say [OF assms(1) refl]]) (simp_all add: action_events_def)
next
  case Status
  with assms show ?thesis by (simp add: moves_def run_handleStatusCommand action_events_def)
next
  case Restart
  show ?thesis unfolding Restart command_reply.simps
    by (intro outcome_moves [OF outcome_Restart [OF assms(1)]]) (simp_all add: abs_state_cases(1) action_events_def)
next
  case Stop
  let ?q = "stop_request cfg u" let ?left = "ks_binding (ks_next w ?q) u"
  have left: "abs_state ?left = fold vm_next (wrote w u ?q) (abs_state (ks_binding w u))"
    using exchange_moves [OF assms, of u ?q] by (simp add: moves_def)
  have "truthy ?left \<longleftrightarrow> abs_state ?left \<noteq> NoVM" by (simp add: abs_state_cases(1))
  with left show ?thesis unfolding Stop command_reply.simps
    by (intro outcome_moves [OF outcome_Stop [OF assms]]) (simp_all add: action_events_def Let_def)
next
  case Destroy
  let ?q = "destroy_request cfg u"
  have "moves u [User (Ask Destroy) (answered (ks_answer w ?q))] (ks_next w ?q)
      (snd (run ref_service (handleDestroyCommand lib cfg (sendReply cfg False) u v) w))"
    using world_ok_next [OF assms, of ?q]
    by (simp add: run_handleDestroyCommand Let_def moves_def world_ok_unbind ks_binding_unbind)
  from moves_trans [OF exchange_moves [OF assms] this] show ?thesis by (simp add: Destroy action_events_def)
next
  case (Passwd pw)
  show ?thesis
  proof (cases "length pw < 8")
    case True
    with Passwd assms(1) show ?thesis by (simp add: run_handlePasswdCommand action_events_def moves_def Let_def)
  next
    case False
    let ?q = "passwd_request cfg u pw"
    have "moves u [User (Ask (Passwd pw)) (answered (ks_answer w ?q))] (ks_next w ?q)
        (snd (run ref_service (handlePasswdCommand lib cfg (sendReply cfg False) u v pw) w))"
      using False world_ok_next [OF assms, of ?q] by (simp add: run_handlePasswdCommand Let_def moves_def)
    from moves_trans [OF exchange_moves [OF assms] this] False show ?thesis by (simp add: Passwd action_events_def)
  qed
qed

lemma message_moves:
  fixes m :: jsval
  assumes "world_ok w" "orch_ok cfg w" and "means m a"
  defines "u \<equiv> opt_prop m ''FromUserName''"
  shows "moves u (action_events cfg w u a) w (snd (run ref_service (handleMessage lib cfg (sendReply cfg enc) m) w))"
proof (cases "a = Ignored")
  case True
  with assms show ?thesis by (simp add: run_ignored moves_def action_events_def)
next
  case False
  have "snd (run ref_service (handleMessage lib cfg (sendReply cfg enc) m) w) =
      snd (run ref_service (action_reply lib cfg (sendReply cfg False) m a) w)"
    using same_action [of lib cfg enc m a False] by (simp add: handleMessage_means [OF assms(3) False] same_end_def)
  moreover have "moves u (action_events cfg w u a) w
      (snd (run ref_service (action_reply lib cfg (sendReply cfg False) m a) w))"
  proof (cases a)
    case Subscribe
    show ?thesis unfolding Subscribe action_reply.simps u_def
      by (intro outcome_moves [OF outcome_NewUser [OF assms(1)]]) (simp_all add: action_events_def)
  next
    case Ordinary
    show ?thesis unfolding Ordinary action_reply.simps u_def
      by (intro outcome_moves [OF routeMessage_refines [OF assms(1)]]) (simp_all add: action_events_def)
  next
    case (Ask c)
    show ?thesis unfolding Ask action_reply.simps u_def by (rule command_moves [OF assms(1,2)])
  qed (use False in simp)
  ultimately show ?thesis by simp
qed

section \<open>Tasks move the machine\<close>

text \<open>
  The orchestrator answers a creation or a start with the VM, or with \<open>null\<close> when it has lost the entry
  of a VM that runs.
\<close>

definition typed_peer :: "config \<Rightarrow> keyspace \<Rightarrow> bool" where
  "typed_peer cfg w \<longleftrightarrow> (\<forall>n u s. ks_peer w n (create_request cfg u) = GotHttp s \<or> ks_peer w n (start_request cfg u) = GotHttp s
     \<longrightarrow> rs_data s = Null \<or> (\<exists>i. is_vm_info (rs_data s) i))"

definition outcome_status :: "resp \<Rightarrow> vm_status option" where
  "outcome_status r = (case r of
     GotHttp s \<Rightarrow> if rs_data s = Null then None
       else Some (if opt_prop (rs_data s) ''status'' = str_val ''running'' then Running else Provisioning)
   | _ \<Rightarrow> None)"

definition task_events :: "keyspace \<Rightarrow> jsval \<Rightarrow> http_req \<Rightarrow> vm_event \<Rightarrow> vm_event list" where
  "task_events w u q e = wrote w u q @ [e]"

lemma recorded_failed:
  assumes "recorded u e w w'"
  shows "abs_state (ks_binding w' u) = failed_task (abs_state (ks_binding w u))"
proof (cases "truthy (ks_binding w u)")
  case True
  then have "abs_state (ks_binding w u) \<noteq> NoVM" by (simp add: abs_state_cases(1))
  with True assms show ?thesis by (simp add: recorded_def)
next
  case False
  then have "abs_state (ks_binding w u) = NoVM" by (simp add: abs_state_cases(1))
  with False assms show ?thesis by (simp add: recorded_def)
qed

lemma typed_peerD:
  assumes "typed_peer cfg w" "q = create_request cfg u \<or> q = start_request cfg u"
  obtains (vm) s i where "ks_answer w q = GotHttp s" "is_vm_info (rs_data s) i" "rs_data s \<noteq> Null"
    | (none) "no_vm (ks_answer w q)" "outcome_status (ks_answer w q) = None"
proof (cases "ks_answer w q")
  case (GotHttp s)
  with assms have "rs_data s = Null \<or> (\<exists>i. is_vm_info (rs_data s) i)" unfolding typed_peer_def ks_answer_def by blast
  with GotHttp that show thesis by (fastforce simp: no_vm_def outcome_status_def is_vm_info_def)
qed (rule none; simp add: no_vm_def outcome_status_def)+

lemma provision_moves:
  assumes "world_ok w" "orch_ok cfg w" "typed_peer cfg w" "\<bar>ks_clock w'\<bar> < 10 ^ 21"
    and w': "w' = snd (run ref_service (provisionVMAsync cfg n u) w)"
  shows "moves u (task_events w u (create_request cfg u) (Provisioned (outcome_status (ks_answer w (create_request cfg u))))) w w'"
    (is "moves u ?es w w'")
proof -
  let ?q = "create_request cfg u"
  note left = exchange_moves [OF assms(1,2), of u ?q, simplified]
  consider (vm) s i where "ks_answer w ?q = GotHttp s" "is_vm_info (rs_data s) i" "rs_data s \<noteq> Null"
    | (none) "no_vm (ks_answer w ?q)" "outcome_status (ks_answer w ?q) = None"
    by (rule typed_peerD [OF assms(3), of ?q u]) auto
  then show ?thesis
  proof cases
    case vm
    note i = is_vm_infoD [OF vm(2)]
    have "json_ok (opt_prop (rs_data s) ''vm_ip'')" "json_ok (opt_prop (rs_data s) ''webhook_url'')" by (simp_all add: i)
    from provision_success(2-4) [OF assms(1,2) vm(1) i(1) this prod.collapse [symmetric], of n, folded w'] vm assms(4)
    show ?thesis by (simp add: moves_def task_events_def outcome_status_def)
  next
    case none
    obtain err where "run ref_service (provision_steps cfg n u) w = (Threw err, ks_next w ?q)"
      by (rule provision_steps_no_vm [OF none(1)])
    note run = this
    have orch: "orch_ok cfg (ks_next w ?q)" using assms(2) by simp
    note f = provision_failure [OF run world_ok_next [OF assms(1,2)] orch prod.collapse [symmetric], folded w']
    have "moves u [Provisioned None] (ks_next w ?q) w'"
      using f(2,4) recorded_failed [OF f(3)] assms(2,4) by (simp add: moves_def)
    from moves_trans [OF left this] none(2) show ?thesis by (simp add: task_events_def)
  qed
qed

lemma restart_moves:
  assumes "world_ok w" "orch_ok cfg w" "typed_peer cfg w" "\<bar>ks_clock w'\<bar> < 10 ^ 21"
    and w': "w' = snd (run ref_service (restart_task cfg n u) w)"
  shows "moves u (task_events w u (start_request cfg u) (Restarted (outcome_status (ks_answer w (start_request cfg u)) \<noteq> None))) w w'"
proof -
  let ?q = "start_request cfg u"
  note left = exchange_moves [OF assms(1,2), of u ?q, simplified]
  consider (vm) s i where "ks_answer w ?q = GotHttp s" "is_vm_info (rs_data s) i" "rs_data s \<noteq> Null"
    | (none) "no_vm (ks_answer w ?q)" "outcome_status (ks_answer w ?q) = None"
    by (rule typed_peerD [OF assms(3), of ?q u]) auto
  then show ?thesis
  proof cases
    case vm
    note i = is_vm_infoD [OF vm(2)]
    have "json_ok (opt_prop (rs_data s) ''vm_ip'')" "json_ok (opt_prop (rs_data s) ''webhook_url'')" by (simp_all add: i)
    from restart_success(2-4) [OF assms(1,2) vm(1) i(1) this prod.collapse [symmetric], of n, folded w'] vm assms(4)
    show ?thesis by (simp add: moves_def task_events_def outcome_status_def)
  next
    case none
    obtain err where "run ref_service (restart_steps cfg n u) w = (Threw err, ks_next w ?q)"
      by (rule restart_steps_no_vm [OF none(1)])
    note run = this
    have orch: "orch_ok cfg (ks_next w ?q)" using assms(2) by simp
    note f = restart_failure [OF run world_ok_next [OF assms(1,2)] orch prod.collapse [symmetric], folded w']
    have "moves u [Restarted False] (ks_next w ?q) w'"
      using f(2,4) recorded_failed [OF f(3)] assms(2) by (simp add: moves_def)
    from moves_trans [OF left this] none(2) show ?thesis by (simp add: task_events_def)
  qed
qed

text \<open>A webhook is no exchange with the orchestrator: its body is another.\<close>

lemma webhook_no_exchange: "rq_body q = Some (webhook_payload cfg' m task) \<Longrightarrow> \<not> vm_exchange cfg u q"
  using vm_exchange_shape [of cfg u q] by (auto simp: webhook_payload_def obj_def)

lemma forward_moves:
  assumes "world_ok w" "orch_ok cfg w" and w': "w' = snd (run ref_service (forward_task cfg m b) w)"
  shows "moves u [] w w'"
proof -
  have "w' = w \<or> (\<exists>qs. w' = w\<lparr>ks_sent := qs\<rparr>)"
    using w' orch_ok_silent [OF assms(2) webhook_no_exchange]
    by (auto simp: forward_task_def doForward_def act_simps ref_run_http split: sum.splits resp.splits)
  with assms(1) show ?thesis by (auto simp: moves_def same_users_def world_ok_def ks_binding_def ks_live_def cong: option.case_cong)
qed

section \<open>Requests move the machine\<close>

text \<open>The message of a request that \<open>POST /wechat\<close> accepts.\<close>

definition wechat_input :: "library \<Rightarrow> config \<Rightarrow> http_request \<Rightarrow> jsval option" where
  "wechat_input lib cfg r =
     (let q = hr_query r in
      if hr_method r = POST \<and> hr_path r = [js ''wechat''] \<and> given (q_signature q) \<and> given (q_timestamp q)
        \<and> given (q_nonce q) \<and> validateSignature (wc_token (cf_wechat cfg)) (text_of (q_signature q))
             (text_of (q_timestamp q)) (text_of (q_nonce q))
      then (case readMessage lib cfg q (hr_body r) of Inr (Inr m) \<Rightarrow> Some m | _ \<Rightarrow> None)
      else None)"

text \<open>The world after a request; one without a route is the framework's.\<close>

definition serve :: "library \<Rightarrow> environment \<Rightarrow> config \<Rightarrow> nat \<Rightarrow> http_request \<Rightarrow> keyspace \<Rightarrow> keyspace" where
  "serve lib env cfg n r w =
     (case handleRequest lib env cfg n r of None \<Rightarrow> w | Some m \<Rightarrow> snd (run ref_service m w))"

lemma serve_dispatch:
  "serve lib env cfg n r w = (case dispatch lib cfg n r of None \<Rightarrow> w | Some m \<Rightarrow> snd (run ref_service m w))"
  by (cases "dispatch lib cfg n r") (simp_all add: serve_def handleRequest_def end_try_catch still_def)

lemma wechat_input_moves:
  assumes "world_ok w" "orch_ok cfg w" "wechat_input lib cfg r = Some m" "means m a"
  shows "moves (opt_prop m ''FromUserName'') (action_events cfg w (opt_prop m ''FromUserName'') a) w (serve lib env cfg n r w)"
proof -
  have "dispatch lib cfg n r =
      Some (handleMessage lib cfg (sendReply cfg (q_encrypt_type (hr_query r) = Some (js ''aes''))) m)"
    using assms(3) by (auto simp: wechat_input_def Let_def dispatch_def postWechat_def split: if_splits sum.splits)
  with message_moves [OF assms(1,2,4)] show ?thesis by (simp add: serve_dispatch)
qed

lemma callback_keys:
  assumes "requests (callback_req cfg v) m" and "orch_ok cfg w"
  shows "ks_map (snd (run ref_service m w)) (binding_key u) = ks_map w (binding_key u)"
proof -
  have "requests (\<lambda>r. (\<exists>k. r = RedisGet k) \<or> message_req cfg (to_user (StrV v)) r) m"
    by (rule safe_mono [OF assms(1)]) (auto simp: callback_req_def)
  note run = run_invariant [OF this, of "\<lambda>w'. orch_ok cfg w' \<and> ks_map w' (binding_key u) = ks_map w (binding_key u)" w ref_service]
  have "orch_ok cfg (snd (run ref_service m w)) \<and> ks_map (snd (run ref_service m w)) (binding_key u) = ks_map w (binding_key u)"
  proof (rule run)
    fix w' :: keyspace and r
    assume I: "orch_ok cfg w' \<and> ks_map w' (binding_key u) = ks_map w (binding_key u)"
      and r: "(\<exists>k. r = RedisGet k) \<or> message_req cfg (to_user (StrV v)) r"
    have "ks_map (snd (ref_service w' r)) (binding_key u) = ks_map w' (binding_key u)" if "message_req cfg (to_user (StrV v)) r"
      using message_keys [of cfg "to_user (StrV v)" "Perform r (\<lambda>_. Return ())" w' u] that I by (simp split: prod.splits)
    with I r show "orch_ok cfg (snd (ref_service w' r))
        \<and> ks_map (snd (ref_service w' r)) (binding_key u) = ks_map w (binding_key u)" by auto
  qed (use assms(2) in simp)
  then show ?thesis by simp
qed

lemma refused_moves:
  assumes "world_ok w" "orch_ok cfg w" "wechat_input lib cfg r = None" "\<bar>ks_clock (serve lib env cfg n r w)\<bar> < 10 ^ 21"
  shows "moves u [] w (serve lib env cfg n r w)"
proof -
  have post: "still (postWechat lib cfg (hr_query r) (hr_body r))" if "hr_method r = POST" "hr_path r = [js ''wechat'']"
    using assms(3) that
    by (auto simp: wechat_input_def Let_def postWechat_def still_def split: if_splits sum.splits)
  have health: "still health" unfolding health_def by (rule still_requests) (intro safe_intros, simp_all)
  have "ks_map (serve lib env cfg n r w) (binding_key x) = ks_map w (binding_key x)" for x
    using post health callback_keys [OF requests_postCallback assms(2)] callback_keys [OF requests_postCallbackStream assms(2)]
    by (auto simp: serve_dispatch dispatch_def still_def split: http_method.splits list.splits)
  from world_keys [OF this assms(1)] assms(4) show ?thesis by (simp add: moves_def same_users_def)
qed

section \<open>Sequences of operations\<close>

text \<open>
  Beside requests and tasks, \<open>Stores u e\<close>: the orchestrator stores or deletes the entry of a user outside an
  exchange, as it does when the bridge has given up waiting for its answer.
\<close>

datatype operation = Arrives http_request | Runs task | Stores jsval "jsstr option"

definition sender :: "library \<Rightarrow> config \<Rightarrow> http_request \<Rightarrow> jsval" where
  "sender lib cfg r = (case wechat_input lib cfg r of None \<Rightarrow> Undef | Some m \<Rightarrow> opt_prop m ''FromUserName'')"

fun op_user :: "library \<Rightarrow> config \<Rightarrow> operation \<Rightarrow> jsval" where
  "op_user lib cfg (Arrives r) = sender lib cfg r"
| "op_user lib cfg (Runs (ProvisionTask u)) = u"
| "op_user lib cfg (Runs (RestartTask u)) = u"
| "op_user lib cfg (Runs (ForwardTask m b)) = opt_prop m ''FromUserName''"
| "op_user lib cfg (Stores u e) = u"

fun op_run :: "library \<Rightarrow> environment \<Rightarrow> config \<Rightarrow> nat \<Rightarrow> operation \<Rightarrow> keyspace \<Rightarrow> keyspace" where
  "op_run lib env cfg n (Arrives r) w = serve lib env cfg n r w"
| "op_run lib env cfg n (Runs t) w = snd (run ref_service (task_body cfg n t) w)"
| "op_run lib env cfg n (Stores u e) w = w\<lparr>ks_map := orch_write (to_str u, e) (ks_map w)\<rparr>"

text \<open>The orchestrator stores what \<open>saveVMInfo\<close> writes.\<close>

fun lawful :: "operation \<Rightarrow> bool" where
  "lawful (Stores u (Some s)) \<longleftrightarrow> orch_entry s"
| "lawful _ \<longleftrightarrow> True"

fun occurs :: "library \<Rightarrow> config \<Rightarrow> keyspace \<Rightarrow> operation \<Rightarrow> vm_event list \<Rightarrow> bool" where
  "occurs lib cfg w (Arrives r) es \<longleftrightarrow>
     (case wechat_input lib cfg r of None \<Rightarrow> es = []
      | Some m \<Rightarrow> (\<exists>a. means m a \<and> es = action_events cfg w (sender lib cfg r) a))"
| "occurs lib cfg w (Runs (ProvisionTask u)) es \<longleftrightarrow>
     es = task_events w u (create_request cfg u) (Provisioned (outcome_status (ks_answer w (create_request cfg u))))"
| "occurs lib cfg w (Runs (RestartTask u)) es \<longleftrightarrow>
     es = task_events w u (start_request cfg u) (Restarted (outcome_status (ks_answer w (start_request cfg u)) \<noteq> None))"
| "occurs lib cfg w (Runs (ForwardTask m b)) es \<longleftrightarrow> es = []"
| "occurs lib cfg w (Stores u e) es \<longleftrightarrow> es = [stored e]"

fun traced :: "library \<Rightarrow> environment \<Rightarrow> config \<Rightarrow> nat \<Rightarrow> keyspace \<Rightarrow> operation list \<Rightarrow> vm_event list list \<Rightarrow> bool" where
  "traced lib env cfg n w [] ess \<longleftrightarrow> ess = []"
| "traced lib env cfg n w (p # ps) ess \<longleftrightarrow>
     (\<exists>es ess'. ess = es # ess' \<and> occurs lib cfg w p es \<and> traced lib env cfg n (op_run lib env cfg n p w) ps ess')"

definition events_of :: "library \<Rightarrow> config \<Rightarrow> jsval \<Rightarrow> operation list \<Rightarrow> vm_event list list \<Rightarrow> vm_event list" where
  "events_of lib cfg u ps ess = concat (map snd (filter (\<lambda>(p, es). to_str (op_user lib cfg p) = to_str u) (zip ps ess)))"

lemma occurs_known: "orch_ok cfg w \<Longrightarrow> lawful p \<Longrightarrow> occurs lib cfg w p es \<Longrightarrow> Wrote Strange \<notin> set es"
proof (cases p)
  case (Arrives r)
  assume o: "orch_ok cfg w" and e: "occurs lib cfg w p es"
  with Arrives wrote_known [OF o] show ?thesis
    by (auto simp: action_events_def split: option.splits)
next
  case (Runs t)
  assume o: "orch_ok cfg w" and e: "occurs lib cfg w p es"
  with Runs wrote_known [OF o] show ?thesis by (cases t) (auto simp: task_events_def)
next
  case (Stores u e)
  assume "lawful p" "occurs lib cfg w p es"
  with Stores stored_known [of e] show ?thesis by (cases e) (auto simp: stored_def)
qed

text \<open>The clock of the reference world does not go back, and its peer stays the same.\<close>

lemma ref_service_frame: "ks_peer (snd (ref_service w r)) = ks_peer w \<and> ks_orch (snd (ref_service w r)) = ks_orch w \<and> ks_clock w \<le> ks_clock (snd (ref_service w r))"
  by (cases "(w, r)" rule: ref_service.cases) (auto simp: ks_store_def)

lemma run_frame: "ks_peer (snd (run ref_service m w)) = ks_peer w \<and> ks_orch (snd (run ref_service m w)) = ks_orch w \<and> ks_clock w \<le> ks_clock (snd (run ref_service m w))"
proof (induction m arbitrary: w)
  case (Perform r k)
  obtain x w' where s: "ref_service w r = (x, w')" by fastforce
  with Perform [OF rangeI, of x w'] ref_service_frame [of w r] show ?case by (auto intro: order_trans)
qed simp_all

lemma op_frame: "ks_peer (op_run lib env cfg n p w) = ks_peer w" "ks_clock w \<le> ks_clock (op_run lib env cfg n p w)"
  "ks_orch (op_run lib env cfg n p w) = ks_orch w"
  by (cases p; auto simp: run_frame serve_def split: option.splits)+

lemma ops_clock: "ks_clock w \<le> ks_clock (fold (op_run lib env cfg n) ps w)"
  by (induction ps arbitrary: w) (auto intro: order_trans op_frame(2))

lemma stores_moves:
  assumes "world_ok w" "lawful (Stores u e)"
  shows "moves u [stored e] w (w\<lparr>ks_map := orch_write (to_str u, e) (ks_map w)\<rparr>)"
proof -
  let ?w = "w\<lparr>ks_map := orch_write (to_str u, e) (ks_map w)\<rparr>"
  have k: "VM_BINDING_PREFIX @ to_str u = binding_key u" by (simp add: binding_key_def)
  have "slot_ok (\<lambda>_. True) (ks_map ?w (binding_key v))" for v
  proof (cases "binding_key v = binding_key u")
    case True
    with assms(2) orch_entry_slot [of _ "\<lambda>_. True"] show ?thesis by (cases e) (simp_all add: k del: slot_ok.simps(2))
  next
    case False
    with slot_okI [OF assms(1), of "\<lambda>_. True" v] show ?thesis by (simp add: k)
  qed
  from slot_okD(1,3) [OF this] assms(1) have ok: "world_ok ?w" by (simp add: world_ok_def)
  have "abs_state (ks_binding ?w u) = fold vm_next [stored e] (abs_state (ks_binding w u))"
    unfolding slot_state_world [OF ok, symmetric] by (cases e) (simp_all add: k slot_state_def stored_def)
  moreover have "same_others u w ?w"
    by (auto simp: same_others_def ks_binding_slot binding_key_def cong: option.case_cong)
  ultimately show ?thesis using ok by (simp add: moves_def)
qed

lemma op_simulates:
  assumes "world_ok w" "orch_ok cfg w" "typed_peer cfg w" "lawful p" "ks_clock (op_run lib env cfg n p w) < 10 ^ 21"
  obtains es where "occurs lib cfg w p es" "moves (op_user lib cfg p) es w (op_run lib env cfg n p w)"
proof -
  have clock: "\<bar>ks_clock (op_run lib env cfg n p w)\<bar> < 10 ^ 21"
    using assms(1,5) op_frame(2) [of w lib env cfg n p] by (auto simp: world_ok_def)
  show thesis
  proof (cases p)
    case (Arrives r)
    show thesis
    proof (cases "wechat_input lib cfg r")
      case None
      show thesis
        by (rule that [of "[]"]) (use Arrives None refused_moves [OF assms(1,2) None, of env n] clock in simp_all)
    next
      case (Some m)
      obtain a where a: "means m a" using means_total [of m] by blast
      show thesis
        by (rule that [of "action_events cfg w (sender lib cfg r) a"])
          (use Arrives Some a wechat_input_moves [OF assms(1,2) Some a] in \<open>auto simp: sender_def\<close>)
    qed
  next
    case (Runs t)
    show thesis
    proof (cases t)
      case (ProvisionTask u)
      show thesis
        by (rule that) (use Runs ProvisionTask provision_moves [OF assms(1-3) clock, of n u] in simp_all)
    next
      case (RestartTask u)
      show thesis
        by (rule that) (use Runs RestartTask restart_moves [OF assms(1-3) clock, of n u] in simp_all)
    next
      case (ForwardTask m b)
      show thesis
        by (rule that) (use Runs ForwardTask forward_moves [OF assms(1,2) refl] in simp_all)
    qed
  next
    case (Stores u e)
    show thesis by (rule that [of "[stored e]"]) (use Stores stores_moves [OF assms(1)] assms(4) in simp_all)
  qed
qed

lemma moves_any:
  assumes "moves u es w w'" and "to_str v \<noteq> []"
  shows "abs_state (ks_binding w' v) =
    (if to_str u = to_str v then fold vm_next es (abs_state (ks_binding w v)) else abs_state (ks_binding w v))"
proof (cases "to_str u = to_str v")
  case True
  then have "ks_binding x v = ks_binding x u" for x by (simp add: ks_binding_def binding_key_def)
  with assms True show ?thesis by (simp add: moves_def)
next
  case False
  then have "to_str v \<noteq> to_str u" by simp
  with assms False show ?thesis by (simp add: moves_def same_users_def)
qed

lemma operations_simulate:
  "world_ok w \<Longrightarrow> orch_ok cfg w \<Longrightarrow> typed_peer cfg w \<Longrightarrow> list_all lawful ps \<Longrightarrow>
     ks_clock (fold (op_run lib env cfg n) ps w) < 10 ^ 21 \<Longrightarrow>
     \<exists>ess. traced lib env cfg n w ps ess \<and> Wrote Strange \<notin> set (concat ess)
       \<and> (\<forall>u. to_str u \<noteq> [] \<longrightarrow> abs_state (ks_binding (fold (op_run lib env cfg n) ps w) u) =
            fold vm_next (events_of lib cfg u ps ess) (abs_state (ks_binding w u)))"
proof (induction ps arbitrary: w)
  case (Cons p ps)
  let ?w = "op_run lib env cfg n p w"
  have "ks_clock ?w < 10 ^ 21" using Cons.prems(5) ops_clock [of ?w lib env cfg n ps] by simp
  moreover have "lawful p" using Cons.prems(4) by simp
  ultimately obtain es where es: "occurs lib cfg w p es" "moves (op_user lib cfg p) es w ?w"
    using op_simulates [OF Cons.prems(1-3)] by blast
  have "world_ok ?w" "orch_ok cfg ?w" "typed_peer cfg ?w"
    using es(2) Cons.prems(2,3) by (simp_all add: moves_def typed_peer_def orch_ok_def op_frame)
  then obtain ess where ess: "traced lib env cfg n ?w ps ess" "Wrote Strange \<notin> set (concat ess)"
      "\<And>u. to_str u \<noteq> [] \<Longrightarrow> abs_state (ks_binding (fold (op_run lib env cfg n) ps ?w) u) =
         fold vm_next (events_of lib cfg u ps ess) (abs_state (ks_binding ?w u))"
    using Cons.IH [of ?w] Cons.prems(4,5) by auto
  have known: "Wrote Strange \<notin> set es" by (rule occurs_known [OF Cons.prems(2) \<open>lawful p\<close> es(1)])
  have "abs_state (ks_binding (fold (op_run lib env cfg n) (p # ps) w) u) =
      fold vm_next (events_of lib cfg u (p # ps) (es # ess)) (abs_state (ks_binding w u))" if "to_str u \<noteq> []" for u
    using that ess(3) [of u] moves_any [OF es(2) that] by (simp add: events_of_def)
  with es(1) ess(1,2) known show ?case by (intro exI [of _ "es # ess"]) simp
qed (simp add: events_of_def)

lemma events_of_known: "Wrote Strange \<notin> set (concat ess) \<Longrightarrow> Wrote Strange \<notin> set (events_of lib cfg u ps ess)"
  by (auto simp: events_of_def dest: set_zip_rightD)

end
