(* ===== verification/TokenLock.thy ===== *)
theory TokenLock
  imports Concurrency
begin

text \<open>
  The lock of \<open>services/wechat-token.ts\<close> between processes.  Any number of bridge processes share a
  Redis server with a clock; each handles requests and runs tasks, all interleaved request by request.
  The code asks WeChat for a token only between getting the lock and asking for its release, which it does
  on every path; so two processes ask at the same time only if one of them takes the 30 seconds of the lock
  for that.  The lock itself is the key in Redis: it is gone when no call is between the two, if the
  commands are executed, and in any case 30 seconds after it was set.
\<close>

section \<open>The discipline\<close>

abbreviation take_lock :: req where
  "take_lock \<equiv> RedisSet TOKEN_LOCK_KEY (js ''1'') (SetNxEx 30)"

abbreviation drop_lock :: req where
  "drop_lock \<equiv> RedisDel TOKEN_LOCK_KEY"

fun lock_write :: "req \<Rightarrow> bool" where
  "lock_write (RedisSet k v md) \<longleftrightarrow> k = TOKEN_LOCK_KEY"
| "lock_write (RedisDel k) \<longleftrightarrow> k = TOKEN_LOCK_KEY"
| "lock_write _ \<longleftrightarrow> False"

text \<open>
  \<open>locking cfg m h\<close>: run by a caller who holds the lock (\<open>h\<close>) or does not, \<open>m\<close> takes it only when free of
  it, drops it only as its holder, asks for a token only as its holder, and never ends as its holder.
\<close>

primrec locking :: "config \<Rightarrow> 'a act \<Rightarrow> bool \<Rightarrow> bool" where
  "locking cfg (Return x) h = (\<not> h)"
| "locking cfg (Throw e) h = (\<not> h)"
| "locking cfg Diverge h = (\<not> h)"
| "locking cfg (Perform r k) h =
     (if r = take_lock then \<not> h \<and> (\<forall>x. locking cfg (k x) (x = GotBool True))
      else if r = drop_lock then h \<and> (\<forall>x. locking cfg (k x) False)
      else \<not> lock_write r \<and> (r = Http (token_request cfg) \<longrightarrow> h) \<and> (\<forall>x. locking cfg (k x) h))"

named_theorems locking_intros

lemma locking_await [locking_intros]:
  "locking cfg m h \<Longrightarrow> (\<And>x. locking cfg (f x) False) \<Longrightarrow> locking cfg (await m f) h"
  by (induction m arbitrary: h) (auto split: if_splits)

lemma locking_try_catch [locking_intros]:
  "locking cfg m h \<Longrightarrow> (\<And>e. locking cfg (g e) False) \<Longrightarrow> locking cfg (try_catch m g) h"
  by (induction m arbitrary: h) (auto split: if_splits)

definition quiet :: "config \<Rightarrow> req \<Rightarrow> bool" where
  "quiet cfg r \<longleftrightarrow> \<not> lock_write r \<and> r \<noteq> Http (token_request cfg)"

lemma locking_quiet: "requests (quiet cfg) m \<Longrightarrow> locking cfg m False"
  by (induction m) (auto simp: quiet_def)

lemma locking_section:
  "requests (\<lambda>r. \<not> lock_write r) m \<Longrightarrow> converges m \<Longrightarrow>
     locking cfg (try_finally m (await (redis_del TOKEN_LOCK_KEY) (\<lambda>_. Return ()))) True"
  by (induction m) (auto simp: redis_del_def split: resp.split)

lemma quiet_simps [simp]:
  "quiet cfg (RedisGet k)" "quiet cfg DateNow" "quiet cfg (Sleep ms)" "quiet cfg (Spawn t)" "quiet cfg (RandomBytes b)"
  "quiet cfg (RandomInt b)" "quiet cfg (RedisExists k)" "quiet cfg (RedisSet k v md) = (k \<noteq> TOKEN_LOCK_KEY)"
  "quiet cfg (RedisDel k) = (k \<noteq> TOKEN_LOCK_KEY)" "rq_body q \<noteq> None \<Longrightarrow> quiet cfg (Http q)"
  "rq_method q \<noteq> GET \<Longrightarrow> quiet cfg (Http q)"
  by (auto simp: quiet_def token_request_def)

lemma locking_lift_sum [locking_intros]: "locking cfg (lift_sum s) False"
  by (cases s) simp_all

section \<open>The service keeps it\<close>

lemma locking_refresh_with:
  assumes "locking cfg retry False"
  shows "locking cfg (refresh_token_with cfg retry) False"
proof -
  have "requests (\<lambda>r. \<not> lock_write r) (fetch_token cfg)"
    unfolding fetch_token_def by (auto intro!: safe_intros)
  from locking_section [OF this converges_fetch_token] assms show ?thesis
    by (auto simp: refresh_token_with_def redis_set_def split: resp.split)
qed

lemma locking_get_token_with:
  "locking cfg refresh False \<Longrightarrow> locking cfg (get_token_with refresh) False"
  unfolding get_token_with_def
  by (auto intro!: locking_intros locking_quiet [of cfg "redis_get k" for k] locking_quiet [of cfg now_seconds]
      split: option.split)

lemma locking_sleep: "locking cfg (sleep ms) False"
  by (rule locking_quiet) simp

lemma locking_getAccessToken: "locking cfg (getAccessToken cfg n) False"
  by (induction n) (auto intro!: locking_get_token_with locking_refresh_with locking_await locking_sleep)

lemma locking_forceRefreshToken: "locking cfg (forceRefreshToken cfg n) False"
  unfolding forceRefreshToken_def refreshAccessToken_def retry_token_def
  by (auto intro!: locking_await locking_refresh_with locking_sleep locking_getAccessToken
      locking_quiet [of cfg "redis_del TOKEN_KEY"] split: nat.split)

lemma locking_send_with:
  "locking cfg again False \<Longrightarrow> locking cfg (send_with cfg n m retry again) False"
  unfolding send_with_def
  by (auto intro!: locking_intros locking_getAccessToken locking_forceRefreshToken
      locking_quiet [of cfg "http q" for q] simp: send_request_def)

lemma locking_send: "locking cfg (sendCustomerServiceMessage cfg n m retry) False"
  unfolding sendCustomerServiceMessage_def Let_def by (auto intro!: locking_send_with)

lemma locking_send_chunks: "locking cfg (send_chunks cfg n u i parts cs ok) False"
  by (induction cs arbitrary: i ok) (auto simp: Let_def intro!: locking_await locking_send locking_sleep)

lemma locking_sendTextMessage [locking_intros]: "locking cfg (sendTextMessage cfg n u v) False"
  unfolding sendTextMessage_def
  by (auto simp: Let_def intro!: locking_intros locking_send locking_send_chunks split: jsval.split)

text \<open>Everything else stays clear of the lock and of the token request.\<close>

lemma quiet_user_req: "user_req cfg' u r \<Longrightarrow> quiet cfg r"
  by (cases r) (auto simp: quiet_def vm_request_def token_request_def)

lemma locking_user: "requests (user_req cfg' u) m \<Longrightarrow> locking cfg m False"
  by (rule locking_quiet, erule safe_mono) (simp_all add: quiet_user_req)

lemmas locking_calls [locking_intros] = user_vm_requests [THEN locking_user] user_store_requests [THEN locking_user]

lemma locking_postWechat: "locking cfg (postWechat lib cfg' q b) False"
proof (cases "readMessage lib cfg' q b")
  case (Inr s)
  show ?thesis
  proof (cases s)
    case (Inr m)
    show ?thesis
    proof (cases "get_prop m ''FromUserName''")
      case (Inr u)
      show ?thesis
        by (rule locking_user [OF requests_postWechat]) (use \<open>readMessage lib cfg' q b = Inr s\<close> \<open>s = Inr m\<close> Inr in simp_all)
    qed (use \<open>readMessage lib cfg' q b = Inr s\<close> Inr in \<open>simp add: postWechat_def handleMessage_def\<close>)
  qed (use Inr in \<open>simp add: postWechat_def\<close>)
qed (simp add: postWechat_def)

lemma locking_callbacks: "locking cfg (postCallback cfg n u b) False" "locking cfg (postCallbackStream cfg n u b) False"
  unfolding postCallback_def postCallbackStream_def
  by (auto intro!: locking_intros)

lemma locking_dispatch: "dispatch lib cfg n r = Some m \<Longrightarrow> locking cfg m False"
proof -
  have "locking cfg health False"
    unfolding health_def by (rule locking_quiet) (intro safe_intros, simp_all)
  then show "dispatch lib cfg n r = Some m \<Longrightarrow> locking cfg m False"
    using locking_postWechat locking_callbacks by (auto simp: dispatch_def split: http_method.splits list.splits if_splits)
qed

lemma locking_handleRequest: "handleRequest lib env cfg n r = Some m \<Longrightarrow> locking cfg m False"
  by (auto simp: handleRequest_def intro!: locking_try_catch [OF locking_dispatch])

lemma locking_task_body: "locking cfg (task_body cfg n t) False"
proof (cases t)
  case (ProvisionTask u)
  show ?thesis
    unfolding ProvisionTask task_body.simps provisionVMAsync_def provision_steps_def
    by (auto intro!: locking_intros locking_quiet [of cfg date_now])
next
  case (RestartTask u)
  show ?thesis
    unfolding RestartTask task_body.simps restart_task_def restart_steps_def
    by (auto intro!: locking_intros locking_quiet [of cfg date_now])
next
  case (ForwardTask m b)
  show ?thesis
    unfolding ForwardTask task_body.simps forward_task_def doForward_def
    by (auto intro!: locking_intros locking_quiet [of cfg "http q" for q])
qed

lemma locking_started: "m \<in> set (started cfg n r) \<Longrightarrow> locking cfg m False"
  by (cases r) (simp_all add: locking_task_body)

section \<open>Processes that share the server\<close>

text \<open>
  The pool holds the pending calls of all processes.  A call that has been told that it has the lock is in its
  section until it requests the release; the pool records the time at which it entered.  With \<open>faults\<close> a
  Redis command may fail, executed or not; every answer of another service is arbitrary.  Time passes
  between requests; when the run is \<open>guarded\<close> it does not pass the 30 seconds of a call in its section.
  Others (the orchestrator, expiry) may change every key but the lock.
\<close>

type_synonym call = "unit act \<times> int option"

definition served :: "bool \<Rightarrow> keyspace \<Rightarrow> req \<Rightarrow> resp \<Rightarrow> keyspace \<Rightarrow> bool" where
  "served faults w r x w' \<longleftrightarrow>
     (if redis_command r
      then (x, w') = ref_service w r \<or> faults \<and> (\<exists>e. x = Failed e) \<and> (w' = w \<or> w' = snd (ref_service w r))
      else w' = w \<and> (r = DateNow \<longrightarrow> x = GotNum (ks_clock w)))"

definition section_since :: "keyspace \<Rightarrow> req \<Rightarrow> resp \<Rightarrow> int option \<Rightarrow> int option" where
  "section_since w r x t =
     (if r = take_lock \<and> x = GotBool True then Some (ks_clock w) else if r = drop_lock then None else t)"

definition lock_time :: int where
  "lock_time = 30000"

definition within_lock :: "int \<Rightarrow> call list \<Rightarrow> bool" where
  "within_lock now pool \<longleftrightarrow> (\<forall>(m, t) \<in> set pool. case t of None \<Rightarrow> True | Some a \<Rightarrow> now < a + lock_time)"

definition ended :: "unit act \<Rightarrow> bool" where
  "ended m \<longleftrightarrow> (case m of Perform r k \<Rightarrow> False | _ \<Rightarrow> True)"

inductive contended :: "library \<Rightarrow> environment \<Rightarrow> config \<Rightarrow> nat \<Rightarrow> bool \<Rightarrow> bool \<Rightarrow> keyspace \<Rightarrow> call list \<Rightarrow> bool"
  for lib env cfg fuel guarded faults where
  start: "ks_live w TOKEN_LOCK_KEY = None \<Longrightarrow> contended lib env cfg fuel guarded faults w []"
| arrive: "\<lbrakk>contended lib env cfg fuel guarded faults w pool; handleRequest lib env cfg fuel r = Some m\<rbrakk> \<Longrightarrow>
     contended lib env cfg fuel guarded faults w (pool @ [(await m (\<lambda>_. Return ()), None)])"
| perform: "\<lbrakk>contended lib env cfg fuel guarded faults w (pre @ (Perform r k, t) # post); served faults w r x w'\<rbrakk> \<Longrightarrow>
     contended lib env cfg fuel guarded faults w'
       (pre @ (k x, section_since w r x t) # post @ map (\<lambda>m. (m, None)) (started cfg fuel r))"
| pass: "\<lbrakk>contended lib env cfg fuel guarded faults w pool; 0 \<le> d;
       guarded \<Longrightarrow> within_lock (ks_clock w + d) pool\<rbrakk> \<Longrightarrow>
     contended lib env cfg fuel guarded faults (w\<lparr>ks_clock := ks_clock w + d\<rparr>) pool"
| others: "\<lbrakk>contended lib env cfg fuel guarded faults w pool; ks_clock w' = ks_clock w;
       ks_map w' TOKEN_LOCK_KEY = ks_map w TOKEN_LOCK_KEY\<rbrakk> \<Longrightarrow>
     contended lib env cfg fuel guarded faults w' pool"
| finish: "\<lbrakk>contended lib env cfg fuel guarded faults w (pre @ (m, t) # post); ended m\<rbrakk> \<Longrightarrow>
     contended lib env cfg fuel guarded faults w (pre @ post)"

text \<open>A call whose next request is for a token.\<close>

definition asks_token :: "config \<Rightarrow> call \<Rightarrow> bool" where
  "asks_token cfg c \<longleftrightarrow> (case fst c of Perform r k \<Rightarrow> r = Http (token_request cfg) | _ \<Rightarrow> False)"

text \<open>A call in its section.\<close>

definition holder :: "call \<Rightarrow> bool" where
  "holder c \<longleftrightarrow> snd c \<noteq> None"

definition lock_inv :: "config \<Rightarrow> keyspace \<Rightarrow> call list \<Rightarrow> bool" where
  "lock_inv cfg w pool \<longleftrightarrow> (\<forall>c \<in> set pool. locking cfg (fst c) (holder c)) \<and> length (filter holder pool) \<le> 1
     \<and> (\<forall>c \<in> set pool. \<forall>a. snd c = Some a \<longrightarrow>
          ks_clock w < a + lock_time \<and> (\<exists>v. ks_map w TOKEN_LOCK_KEY = Some (v, Some (a + lock_time))))"

lemma served_clock: "served flt w r x w' \<Longrightarrow> ks_clock w' = ks_clock w"
proof -
  have "redis_command r \<Longrightarrow> ks_clock (snd (ref_service w r)) = ks_clock w"
    by (cases "(w, r)" rule: ref_service.cases) (simp_all add: redis_command_def ks_store_def)
  then show "served flt w r x w' \<Longrightarrow> ks_clock w' = ks_clock w"
    by (auto simp: served_def split: if_splits dest: arg_cong [where f = snd])
qed

lemma served_lock:
  assumes "served flt w r x w'" "\<not> lock_write r"
  shows "ks_map w' TOKEN_LOCK_KEY = ks_map w TOKEN_LOCK_KEY"
proof -
  have "redis_command r \<Longrightarrow> ks_map (snd (ref_service w r)) TOKEN_LOCK_KEY = ks_map w TOKEN_LOCK_KEY"
    using assms(2) by (cases "(w, r)" rule: ref_service.cases) (auto simp: redis_command_def ks_store_def)
  with assms(1) show ?thesis
    by (auto simp: served_def split: if_splits dest: arg_cong [where f = snd])
qed

text \<open>While a call holds the lock nobody else gets it.\<close>

lemma served_take:
  assumes "served flt w take_lock x w'"
  shows "if ks_live w TOKEN_LOCK_KEY = None
    then ks_map w' TOKEN_LOCK_KEY = Some (js ''1'', Some (ks_clock w + lock_time)) \<or> x \<noteq> GotBool True \<and> w' = w
    else x \<noteq> GotBool True \<and> w' = w"
  using assms by (auto simp: served_def redis_command_def ks_store_def lock_time_def split: if_splits)

lemma holder_live:
  assumes "lock_inv cfg w pool" "c \<in> set pool" "holder c"
  shows "ks_live w TOKEN_LOCK_KEY \<noteq> None"
  using assms by (fastforce simp: lock_inv_def holder_def ks_live_def)

lemma lock_inv_perform:
  assumes inv: "lock_inv cfg w (pre @ (Perform r k, t) # post)" and srv: "served flt w r x w'"
  shows "lock_inv cfg w' (pre @ (k x, section_since w r x t) # post @ map (\<lambda>m. (m, None)) (started cfg n r))"
proof -
  let ?new = "map (\<lambda>m. (m, None)) (started cfg n r) :: call list"
  have new: "\<forall>c \<in> set ?new. locking cfg (fst c) (holder c) \<and> \<not> holder c" by (auto simp: holder_def locking_started)
  then have fnew: "filter holder ?new = []" by (simp add: filter_empty_conv)
  have me: "locking cfg (Perform r k) (t \<noteq> None)" using inv by (simp add: lock_inv_def holder_def)
  note clock = served_clock [OF srv]
  consider (take) "r = take_lock" | (drop) "r = drop_lock" | (other) "\<not> lock_write r"
    using me by (auto split: if_splits)
  then show ?thesis
  proof cases
    case take
    with me have t: "t = None" and go: "locking cfg (k x) (x = GotBool True)" by simp_all
    show ?thesis
    proof (cases "ks_live w TOKEN_LOCK_KEY = None")
      case True
      then have none: "\<not> holder c" if "c \<in> set (pre @ post)" for c using holder_live [OF inv, of c] that by auto
      then have "filter holder pre = []" "filter holder post = []" by (auto simp: filter_empty_conv)
      moreover have "\<forall>c \<in> set pre \<union> set post. locking cfg (fst c) (holder c)" using inv by (simp add: lock_inv_def)
      moreover note new fnew none take t go clock served_take [OF srv [unfolded take]] True
      ultimately show ?thesis
        by (cases "x = GotBool True") (auto simp: lock_inv_def section_since_def holder_def lock_time_def)
    next
      case False
      with served_take [OF srv [unfolded take]] have "x \<noteq> GotBool True" "w' = w" by simp_all
      moreover from this go have "locking cfg (k x) False" by simp
      ultimately show ?thesis using inv new fnew take t by (auto simp: lock_inv_def section_since_def holder_def)
    qed
  next
    case drop
    with me have t: "holder (Perform r k, t)" by (simp add: holder_def)
    have "length (filter holder (pre @ (Perform r k, t) # post)) \<le> 1" using inv by (simp only: lock_inv_def)
    with t have "filter holder pre = []" "filter holder post = []" by auto
    with inv new fnew drop me show ?thesis
      by (auto simp: lock_inv_def section_since_def filter_empty_conv holder_def)
  next
    case other
    then have "r \<noteq> take_lock" "r \<noteq> drop_lock" by auto
    with inv new fnew me clock served_lock [OF srv other] show ?thesis
      by (auto simp: lock_inv_def section_since_def holder_def)
  qed
qed

lemma contended_inv: "contended lib env cfg n True flt w pool \<Longrightarrow> lock_inv cfg w pool"
proof (induction rule: contended.induct)
  case (start w)
  show ?case by (simp add: lock_inv_def)
next
  case (arrive w pool r m)
  then show ?case
    by (auto simp: lock_inv_def holder_def intro: locking_await [OF locking_handleRequest])
next
  case (perform w pre r k t post x w')
  then show ?case by (intro lock_inv_perform)
next
  case (pass w pool d)
  then show ?case by (fastforce simp: lock_inv_def within_lock_def)
next
  case (others w pool w')
  then show ?case by (simp add: lock_inv_def)
next
  case (finish w pre m t post)
  then show ?case by (auto simp: lock_inv_def split: if_splits)
qed

lemma length_filter_mono: "(\<And>x. x \<in> set xs \<Longrightarrow> P x \<Longrightarrow> Q x) \<Longrightarrow> length (filter P xs) \<le> length (filter Q xs)"
  by (induction xs) (auto simp: le_SucI)

lemma one_asks:
  assumes "contended lib env cfg n True flt w pool"
  shows "length (filter (asks_token cfg) pool) \<le> 1"
proof -
  note inv = contended_inv [OF assms]
  have "holder c" if c: "c \<in> set pool" "asks_token cfg c" for c
  proof -
    obtain k where "fst c = Perform (Http (token_request cfg)) k"
      using c(2) by (auto simp: asks_token_def split: act.splits)
    with inv c(1) show ?thesis by (auto simp: lock_inv_def)
  qed
  then have "length (filter (asks_token cfg) pool) \<le> length (filter holder pool)" by (rule length_filter_mono)
  with inv show "length (filter (asks_token cfg) pool) \<le> 1" by (simp add: lock_inv_def)
qed

section \<open>The key in Redis\<close>

text \<open>
  Guarded or not: the key of the lock always has a time to live of at most 30 seconds, and if the commands
  do not fail it is there only while some call is in its section.
\<close>

definition key_inv :: "config \<Rightarrow> bool \<Rightarrow> keyspace \<Rightarrow> call list \<Rightarrow> bool" where
  "key_inv cfg flt w pool \<longleftrightarrow> (\<forall>c \<in> set pool. locking cfg (fst c) (holder c))
     \<and> (\<forall>v t. ks_map w TOKEN_LOCK_KEY = Some (v, t) \<longrightarrow> (\<exists>a. t = Some a \<and> a \<le> ks_clock w + lock_time))
     \<and> (\<not> flt \<and> ks_live w TOKEN_LOCK_KEY \<noteq> None \<longrightarrow> (\<exists>c \<in> set pool. holder c))"

lemma ks_live_slot:
  "ks_clock w' = ks_clock w \<Longrightarrow> ks_map w' k = ks_map w k \<Longrightarrow> ks_live w' k = ks_live w k"
  by (simp add: ks_live_def cong: option.case_cong)

lemma key_inv_perform:
  assumes inv: "key_inv cfg flt w (pre @ (Perform r k, t) # post)" and srv: "served flt w r x w'"
  shows "key_inv cfg flt w' (pre @ (k x, section_since w r x t) # post @ map (\<lambda>m. (m, None)) (started cfg n r))"
proof -
  have me: "locking cfg (Perform r k) (t \<noteq> None)" using inv by (simp add: key_inv_def holder_def)
  have rest: "\<forall>c \<in> set pre \<union> set post. locking cfg (fst c) (holder c)"
    and slot: "\<forall>v t. ks_map w TOKEN_LOCK_KEY = Some (v, t) \<longrightarrow> (\<exists>a. t = Some a \<and> a \<le> ks_clock w + lock_time)"
    and live: "\<not> flt \<and> ks_live w TOKEN_LOCK_KEY \<noteq> None \<longrightarrow> (\<exists>c \<in> set pre \<union> set post. holder c) \<or> t \<noteq> None"
    using inv by (auto simp: key_inv_def holder_def)
  have new: "\<forall>m \<in> set (started cfg n r). locking cfg m False" by (simp add: locking_started)
  note clock = served_clock [OF srv]
  consider (take) "r = take_lock" | (drop) "r = drop_lock" | (other) "\<not> lock_write r"
    using me by (auto split: if_splits)
  then show ?thesis
  proof cases
    case take
    with me have t: "t = None" and go: "locking cfg (k x) (x = GotBool True)" by simp_all
    have "(x, w') = ref_service w take_lock \<or> flt \<and> (\<exists>e. x = Failed e) \<and> (w' = w \<or> w' = snd (ref_service w take_lock))"
      using srv take by (simp add: served_def redis_command_def)
    with rest slot live new take t go show ?thesis
      by (auto simp: key_inv_def section_since_def holder_def ks_store_def lock_time_def split: if_splits)
  next
    case drop
    with me have go: "locking cfg (k x) False" by simp
    have "(x, w') = ref_service w drop_lock \<or> flt \<and> (w' = w \<or> w' = snd (ref_service w drop_lock))"
      using srv drop by (auto simp: served_def redis_command_def)
    with rest slot live new drop go show ?thesis
      by (auto simp: key_inv_def section_since_def holder_def ks_live_def)
  next
    case other
    then have "r \<noteq> take_lock" "r \<noteq> drop_lock" by auto
    moreover have "ks_live w' TOKEN_LOCK_KEY = ks_live w TOKEN_LOCK_KEY"
      by (rule ks_live_slot [OF clock served_lock [OF srv other]])
    moreover from me other have "locking cfg (k x) (t \<noteq> None)" by (auto split: if_splits)
    ultimately show ?thesis
      using rest slot live new clock served_lock [OF srv other] by (auto simp: key_inv_def section_since_def holder_def)
  qed
qed

lemma contended_key: "contended lib env cfg n g flt w pool \<Longrightarrow> key_inv cfg flt w pool"
proof (induction rule: contended.induct)
  case (start w)
  then show ?case by (auto simp: key_inv_def ks_live_def lock_time_def split: option.splits if_splits)
next
  case (arrive w pool r m)
  then show ?case by (auto simp: key_inv_def holder_def intro: locking_await [OF locking_handleRequest])
next
  case (perform w pre r k t post x w')
  then show ?case by (intro key_inv_perform)
next
  case (pass w pool d)
  have "ks_live (w\<lparr>ks_clock := ks_clock w + d\<rparr>) TOKEN_LOCK_KEY \<noteq> None \<Longrightarrow> ks_live w TOKEN_LOCK_KEY \<noteq> None"
    using pass(2) by (auto simp: ks_live_def split: option.splits if_splits)
  with pass show ?case by (fastforce simp: key_inv_def)
next
  case (others w pool w')
  have "ks_live w' TOKEN_LOCK_KEY = ks_live w TOKEN_LOCK_KEY" by (rule ks_live_slot [OF others(2,3)])
  with others show ?case by (simp add: key_inv_def)
next
  case (finish w pre m t post)
  then have "locking cfg m (t \<noteq> None)" by (simp add: key_inv_def holder_def)
  with finish(2) have "t = None" by (cases m) (auto simp: ended_def)
  with finish show ?case by (auto simp: key_inv_def holder_def)
qed

lemma lock_key:
  assumes "contended lib env cfg n g flt w pool"
  shows "\<not> flt \<Longrightarrow> (\<And>c. c \<in> set pool \<Longrightarrow> ended (fst c)) \<Longrightarrow> ks_live w TOKEN_LOCK_KEY = None"
    and "ks_map w TOKEN_LOCK_KEY = Some (v, t) \<Longrightarrow> \<exists>a. t = Some a \<and> a \<le> ks_clock w + lock_time"
proof -
  note inv = contended_key [OF assms]
  show "ks_map w TOKEN_LOCK_KEY = Some (v, t) \<Longrightarrow> \<exists>a. t = Some a \<and> a \<le> ks_clock w + lock_time"
    using inv by (simp add: key_inv_def)
  assume "\<not> flt" and e: "\<And>c. c \<in> set pool \<Longrightarrow> ended (fst c)"
  have "\<not> holder c" if c: "c \<in> set pool" for c
  proof -
    have "locking cfg (fst c) (holder c)" using inv c by (simp add: key_inv_def)
    with e [OF c] show ?thesis by (cases "fst c") (auto simp: ended_def)
  qed
  with \<open>\<not> flt\<close> inv show "ks_live w TOKEN_LOCK_KEY = None" by (auto simp: key_inv_def)
qed

section \<open>A lock that runs out\<close>

text \<open>
  Without the guard two calls ask for a token at once: the second comes when the 30 seconds of the first
  are over.  Both then drop the lock, the first that of the second.
\<close>

definition stream_end :: http_request where
  "stream_end = \<lparr>hr_method = POST, hr_path = [js ''callback'', js ''u'', js ''stream''],
     hr_query = \<lparr>q_signature = None, q_timestamp = None, q_nonce = None, q_echostr = None, q_encrypt_type = None,
       q_msg_signature = None\<rparr>,
     hr_body = obj [(''chunk'', str_val ''x''), (''done'', BoolV True)]\<rparr>"

text \<open>A call that finds no token in the cache, gets the lock and asks.\<close>

definition soon_asks :: "config \<Rightarrow> 'a act \<Rightarrow> bool" where
  "soon_asks cfg m \<longleftrightarrow> (case m of
     Perform r k \<Rightarrow> r = RedisGet TOKEN_KEY \<and> (case k (GotStr None) of
       Perform r k \<Rightarrow> r = take_lock \<and> (case k (GotBool True) of
         Perform r k \<Rightarrow> r = Http (token_request cfg) | _ \<Rightarrow> False) | _ \<Rightarrow> False) | _ \<Rightarrow> False)"

lemma soon_asks_await [simp]:
  "soon_asks cfg m \<Longrightarrow> soon_asks cfg (await m f)" "soon_asks cfg m \<Longrightarrow> soon_asks cfg (try_catch m h)"
  by (auto simp: soon_asks_def split: act.splits)

lemma soon_asks_getAccessToken: "soon_asks cfg (getAccessToken cfg n)"
  by (simp add: soon_asks_def getAccessToken_eq get_token_with_def redis_get_def refreshAccessToken_def
      refresh_token_with_def redis_set_def fetch_token_def http_def)

lemma soon_asks_send: "soon_asks cfg (sendTextMessage cfg n u (StrV [c]))"
proof -
  have "content_length (StrV [c]) = Inr (int_val 1)" by (simp add: content_length_def)
  then show ?thesis
    by (simp add: sendTextMessage_def MAX_LENGTH_def sendCustomerServiceMessage_def send_with_def soon_asks_getAccessToken)
qed

lemma soon_asks_stream:
  obtains m where "handleRequest lib env cfg n stream_end = Some m" "soon_asks cfg m"
proof -
  have js: "js ''x'' = [120]" by (simp add: js_def)
  have s: "soon_asks cfg (postCallbackStream cfg n (js ''u'') (obj [(''chunk'', str_val ''x''), (''done'', BoolV True)]))"
    by (simp add: postCallbackStream_def js_simps js soon_asks_send)
  have "handleRequest lib env cfg n stream_end = Some (try_catch
      (postCallbackStream cfg n (js ''u'') (obj [(''chunk'', str_val ''x''), (''done'', BoolV True)]))
      (\<lambda>e. Return (errorReply env e)))"
    by (simp add: handleRequest_def dispatch_def stream_end_def js_inj)
  from that [OF this] s show thesis by simp
qed

lemma contended_asks:
  assumes "contended lib env cfg n g flt w pool" "ks_live w TOKEN_KEY = None" "ks_live w TOKEN_LOCK_KEY = None"
  obtains c where "contended lib env cfg n g flt (ks_store w TOKEN_LOCK_KEY (js ''1'') (Some 30)) (pool @ [c])"
    "asks_token cfg c"
proof -
  obtain m' where m': "handleRequest lib env cfg n stream_end = Some m'" "soon_asks cfg m'" by (rule soon_asks_stream)
  from soon_asks_await(1) [OF m'(2), of "\<lambda>_. Return ()"]
  obtain k1 k2 k3 where m: "await m' (\<lambda>_. Return ()) = Perform (RedisGet TOKEN_KEY) k1"
    "k1 (GotStr None) = Perform take_lock k2" "k2 (GotBool True) = Perform (Http (token_request cfg)) k3"
    by (auto simp: soon_asks_def split: act.splits)
  have 1: "contended lib env cfg n g flt w (pool @ (Perform (RedisGet TOKEN_KEY) k1, None) # [])"
    using contended.arrive [OF assms(1) m'(1)] m(1) by simp
  have "served flt w (RedisGet TOKEN_KEY) (GotStr None) w"
    using assms(2) by (simp add: served_def redis_command_def)
  from contended.perform [OF 1 this] have 2: "contended lib env cfg n g flt w (pool @ (Perform take_lock k2, None) # [])"
    by (simp add: m(2) section_since_def)
  have "served flt w take_lock (GotBool True) (ks_store w TOKEN_LOCK_KEY (js ''1'') (Some 30))"
    using assms(3) by (simp add: served_def redis_command_def)
  from contended.perform [OF 2 this]
  have "contended lib env cfg n g flt (ks_store w TOKEN_LOCK_KEY (js ''1'') (Some 30))
      (pool @ [(Perform (Http (token_request cfg)) k3, Some (ks_clock w))])"
    by (simp add: m(3) section_since_def)
  then show thesis by (rule that) (simp add: asks_token_def)
qed

lemma lock_runs_out:
  "\<exists>w pool. contended lib env cfg n False flt w pool \<and> 2 \<le> length (filter (asks_token cfg) pool)"
proof -
  let ?w = "fresh_world 0 no_peer"
  let ?w1 = "ks_store ?w TOKEN_LOCK_KEY (js ''1'') (Some 30)"
  let ?w2 = "?w1\<lparr>ks_clock := ks_clock ?w1 + lock_time\<rparr>"
  obtain c where c: "contended lib env cfg n False flt ?w1 ([] @ [c])" "asks_token cfg c"
    by (rule contended_asks [OF contended.start [of ?w lib env cfg n False flt]]) simp_all
  have "contended lib env cfg n False flt ?w2 ([] @ [c])"
    by (rule contended.pass [OF c(1)]) (simp_all add: lock_time_def)
  moreover have "ks_live ?w2 TOKEN_KEY = None" "ks_live ?w2 TOKEN_LOCK_KEY = None"
    by (simp_all add: ks_live_def ks_store_def lock_time_def)
  ultimately obtain d where d: "contended lib env cfg n False flt (ks_store ?w2 TOKEN_LOCK_KEY (js ''1'') (Some 30)) (([] @ [c]) @ [d])"
    "asks_token cfg d"
    by (rule contended_asks)
  have "2 \<le> length (filter (asks_token cfg) (([] @ [c]) @ [d]))" using c(2) d(2) by simp
  with d(1) show ?thesis by blast
qed

end
