(* ===== verification/Termination.thy ===== *)
theory Termination
  imports Concurrency
begin

text \<open>
  Every request and every task comes to an end.  The only loop that waits is the one for the token lock in
  \<open>services/wechat-token.ts\<close>; it is cut off by fuel.  In a world where the lock has at most the 30 seconds
  left that the code gives it, 31 rounds are enough for everything the bridge does, whatever the other
  services answer and whatever the orchestrator writes.
\<close>

section \<open>Trees that end\<close>

definition lock_bounded :: "keyspace \<Rightarrow> bool" where
  "lock_bounded w \<longleftrightarrow> (\<forall>v t. ks_map w TOKEN_LOCK_KEY = Some (v, t) \<longrightarrow> (\<exists>a. t = Some a \<and> a \<le> ks_clock w + 30000))"

definition ends :: "'a act \<Rightarrow> bool" where
  "ends m \<longleftrightarrow> (\<forall>w. lock_bounded w \<longrightarrow> fst (run ref_service m w) \<noteq> Exhausted \<and> lock_bounded (snd (run ref_service m w)))"

definition clear :: "req \<Rightarrow> bool" where
  "clear r \<longleftrightarrow> (\<forall>w. lock_bounded w \<longrightarrow> lock_bounded (snd (ref_service w r)))"

named_theorems ends_intros

lemma ends_await [ends_intros]: "ends m \<Longrightarrow> (\<And>x. ends (f x)) \<Longrightarrow> ends (await m f)"
  unfolding ends_def by (auto simp: run_await split: prod.splits outcome.splits)

lemma ends_try_catch [ends_intros]: "ends m \<Longrightarrow> (\<And>e. ends (h e)) \<Longrightarrow> ends (try_catch m h)"
  unfolding ends_def by (auto simp: run_try_catch split: prod.splits outcome.splits)

lemma ends_lift_sum [ends_intros]: "ends (lift_sum m)"
  by (cases m) (simp_all add: ends_def)

lemma ends_leaves [ends_intros]: "ends (Return x)" "ends (Throw e)"
  by (simp_all add: ends_def)

lemma ends_if [ends_intros]: "(b \<Longrightarrow> ends m) \<Longrightarrow> (\<not> b \<Longrightarrow> ends m') \<Longrightarrow> ends (if b then m else m')"
  by simp

lemma lock_bounded_run: "requests clear m \<Longrightarrow> lock_bounded w \<Longrightarrow> lock_bounded (snd (run ref_service m w))"
  by (rule run_invariant [where P = clear]) (auto simp: clear_def)

lemma ends_converges: "converges m \<Longrightarrow> requests clear m \<Longrightarrow> ends m"
  by (simp add: ends_def run_converges lock_bounded_run)

lemma clear_simps [simp]:
  "clear (RedisGet k)" "clear (RedisExists k)" "clear (RedisDel k)" "clear DateNow" "clear (Sleep ms)" "clear (Http q)"
  "clear (Spawn t)" "clear (RandomBytes n)" "clear (RandomInt n)" "clear (RedisSet TOKEN_LOCK_KEY v (SetNxEx 30))"
  by (auto simp: clear_def lock_bounded_def ks_store_def ks_map_next_other)

lemma clear_set [simp]: "k \<noteq> TOKEN_LOCK_KEY \<Longrightarrow> clear (RedisSet k v md)"
  unfolding clear_def
proof (intro allI impI)
  fix w
  assume k: "k \<noteq> TOKEN_LOCK_KEY" and w: "lock_bounded w"
  have "\<exists>x. snd (ref_service w (RedisSet k v md)) = w \<or> snd (ref_service w (RedisSet k v md)) = ks_store w k v x"
    by (cases "(w, RedisSet k v md)" rule: ref_service.cases) auto
  with k w show "lock_bounded (snd (ref_service w (RedisSet k v md)))" by (auto simp: lock_bounded_def ks_store_def)
qed

section \<open>The token\<close>

lemma clear_token: "token_req cfg r \<Longrightarrow> clear r"
  by (cases r) auto

lemma lock_bounded_time: "lock_bounded w \<Longrightarrow> ks_timed TOKEN_LOCK_KEY w \<and> ks_remaining TOKEN_LOCK_KEY w \<le> 30000"
  by (auto simp: lock_bounded_def ks_timed_def ks_remaining_def split: option.split)

lemma ends_getAccessToken: "30 \<le> n \<Longrightarrow> ends (getAccessToken cfg n)"
proof -
  assume n: "30 \<le> n"
  have "requests clear (getAccessToken cfg n)" by (rule safe_mono [OF requests_getAccessToken]) (simp_all add: clear_token)
  moreover have "fst (run ref_service (getAccessToken cfg n) w) \<noteq> Exhausted" if "lock_bounded w" for w
    by (rule redis_lock.enough_fuel [OF ref_redis_lock refl]) (use lock_bounded_time [OF that] n in linarith)+
  ultimately show ?thesis by (simp add: ends_def lock_bounded_run)
qed

lemma converges_try_finally: "converges m \<Longrightarrow> converges f \<Longrightarrow> converges (try_finally m f)"
  by (induction m) (auto intro!: converges_await)

lemma ends_fetch: "ends (try_finally (fetch_token cfg) (await (redis_del TOKEN_LOCK_KEY) (\<lambda>_. Return ())))"
proof (rule ends_converges)
  show "converges (try_finally (fetch_token cfg) (await (redis_del TOKEN_LOCK_KEY) (\<lambda>_. Return ())))"
    by (intro converges_try_finally converges_fetch_token converges_await) simp_all
  have "requests clear (fetch_token cfg)" by (rule safe_mono [OF requests_fetch_token]) (simp_all add: clear_token)
  then show "requests clear (try_finally (fetch_token cfg) (await (redis_del TOKEN_LOCK_KEY) (\<lambda>_. Return ())))"
    by (intro safe_intros) simp_all
qed

lemma ends_request [ends_intros]:
  "ends (redis_get k)" "ends (redis_del k)" "ends date_now" "ends (http q)" "ends (sleep ms)" "ends (spawn t)"
  "ends (redis_set TOKEN_LOCK_KEY v (SetNxEx 30))"
  by (rule ends_converges; simp)+

lemma ends_forceRefreshToken: "31 \<le> n \<Longrightarrow> ends (forceRefreshToken cfg n)"
  unfolding forceRefreshToken_def refreshAccessToken_def refresh_token_with_def retry_token_def
  by (cases n) (auto intro!: ends_intros ends_fetch ends_getAccessToken)

section \<open>Messages and handlers\<close>

lemma ends_send_with: "31 \<le> n \<Longrightarrow> ends again \<Longrightarrow> ends (send_with cfg n m retry again)"
  unfolding send_with_def by (intro ends_intros ends_getAccessToken ends_forceRefreshToken) simp_all

lemma ends_send: "31 \<le> n \<Longrightarrow> ends (sendCustomerServiceMessage cfg n m retry)"
  unfolding sendCustomerServiceMessage_def Let_def by (intro ends_intros ends_send_with) simp_all

lemma ends_send_chunks: "31 \<le> n \<Longrightarrow> ends (send_chunks cfg n u i parts cs ok)"
  by (induction cs arbitrary: i ok) (auto simp: Let_def intro!: ends_intros ends_send)

lemma ends_sendTextMessage: "31 \<le> n \<Longrightarrow> ends (sendTextMessage cfg n u v)"
  unfolding sendTextMessage_def
  by (intro ends_intros ends_send) (auto simp: Let_def intro!: ends_intros ends_send_chunks split: jsval.split)

lemma clear_user_req: "user_req cfg u r \<Longrightarrow> clear r"
  by (cases r) auto

lemma converges_store [simp]:
  "converges (getVMBinding u)" "converges (setVMBinding u b)" "converges (deleteVMBinding u)"
  "converges (updateVMBindingStatus u s fs)"
  unfolding getVMBinding_def setVMBinding_def deleteVMBinding_def updateVMBindingStatus_def
  by (auto intro!: converges_await)

lemma converges_sendReply [simp]: "converges (sendReply cfg enc xml)"
  unfolding sendReply_def encryptMessage_def by (auto simp: Let_def intro!: converges_await split: option.split)

lemma converges_say [simp]: "converges (say lib (sendReply cfg enc) u v c)"
  unfolding say_def by (intro converges_await) simp_all

lemma converges_handlers [simp]:
  "converges (handleNewUser lib (sendReply cfg enc) u v)" "converges (handleStatusCommand lib cfg (sendReply cfg enc) u v)"
  "converges (handleRestartCommand lib (sendReply cfg enc) u v)" "converges (handleStopCommand lib cfg (sendReply cfg enc) u v)"
  "converges (handleDestroyCommand lib cfg (sendReply cfg enc) u v)"
  "converges (handlePasswdCommand lib cfg (sendReply cfg enc) u v pw)"
  unfolding handleNewUser_def handleStatusCommand_def handleRestartCommand_def handleStopCommand_def
    handleDestroyCommand_def handlePasswdCommand_def
  by ((intro converges_await converges_try_catch conjI impI | simp)+)

lemma converges_route [simp]: "converges (routeMessage lib cfg (sendReply cfg enc) m u v)"
  unfolding routeMessage_def forwardToClawdbot_def by (auto intro!: converges_await)

lemma converges_handleMessage [simp]: "converges (handleMessage lib cfg (sendReply cfg enc) m)"
  unfolding handleMessage_def runCommand_def
  by (auto intro!: converges_await split: option.split if_splits)

lemma converges_postWechat [simp]: "converges (postWechat lib cfg q b)"
  unfolding postWechat_def by (auto split: sum.split)

lemma converges_health [simp]: "converges health"
  unfolding health_def by (auto intro!: converges_await)

text \<open>Only the callback endpoints send messages, so only they can wait for the lock.\<close>

lemma converges_dispatch:
  "dispatch lib cfg n r = Some m \<Longrightarrow> hd (hr_path r) \<noteq> js ''callback'' \<Longrightarrow> converges m"
  by (auto simp: dispatch_def split: http_method.splits list.splits if_splits)

lemma clear_postWechat: "requests clear (postWechat lib cfg q b)"
proof (cases "\<exists>m u. readMessage lib cfg q b = Inr (Inr m) \<and> get_prop m ''FromUserName'' = Inr u")
  case True
  then obtain m u where m: "readMessage lib cfg q b = Inr (Inr m)" "get_prop m ''FromUserName'' = Inr u" by blast
  show ?thesis by (rule safe_mono [OF requests_postWechat [OF m]]) (simp_all add: clear_user_req)
next
  case False
  then have "\<exists>e. get_prop m ''FromUserName'' = Inl e" if "readMessage lib cfg q b = Inr (Inr m)" for m
    using that by (metis sum.exhaust)
  then show ?thesis by (fastforce simp: postWechat_def handleMessage_def split: sum.splits)
qed

lemma ends_dispatch: "31 \<le> n \<Longrightarrow> dispatch lib cfg n r = Some m \<Longrightarrow> ends m"
proof -
  assume n: "31 \<le> n"
  have "ends (postWechat lib cfg q b)" for q b by (rule ends_converges [OF converges_postWechat clear_postWechat])
  moreover have "ends health" by (rule ends_converges) (simp, unfold health_def, intro safe_intros, simp_all)
  moreover have "ends (postCallback cfg n u b)" "ends (postCallbackStream cfg n u b)" for u b
    unfolding postCallback_def postCallbackStream_def getVMBinding_def
    by (auto intro!: ends_intros ends_sendTextMessage n split: option.split)
  ultimately show "dispatch lib cfg n r = Some m \<Longrightarrow> ends m"
    by (auto simp: dispatch_def intro: ends_leaves split: http_method.splits list.splits if_splits)
qed

lemma ends_handleRequest: "31 \<le> n \<Longrightarrow> handleRequest lib env cfg n r = Some m \<Longrightarrow> ends m"
  by (auto simp: handleRequest_def intro!: ends_intros dest: ends_dispatch)

lemma ends_user: "converges m \<Longrightarrow> requests (user_req cfg u) m \<Longrightarrow> ends m"
  by (rule ends_converges, assumption, erule safe_mono) (simp_all add: clear_user_req)

lemma ends_task_body: "31 \<le> n \<Longrightarrow> ends (task_body cfg n t)"
proof -
  assume n: "31 \<le> n"
  note vm = user_vm_requests [THEN ends_user [rotated]] user_store_requests [THEN ends_user [rotated]]
  show ?thesis
  proof (cases t)
    case (ProvisionTask u)
    show ?thesis
      unfolding ProvisionTask task_body.simps provisionVMAsync_def provision_steps_def
      by (intro ends_intros ends_sendTextMessage [OF n] vm) simp_all
  next
    case (RestartTask u)
    show ?thesis
      unfolding RestartTask task_body.simps restart_task_def restart_steps_def
      by (intro ends_intros ends_sendTextMessage [OF n] vm) simp_all
  next
    case (ForwardTask m b)
    show ?thesis
      unfolding ForwardTask task_body.simps forward_task_def doForward_def
      by (auto intro!: ends_intros)
  qed
qed

end
