(* ===== verification/Plugin.thy ===== *)
theory Plugin
  imports Effects Bytes
begin

text \<open>
  \<open>clawdbot-plugin-webhook-server\<close>: the channel plugin inside the VM.  \<open>runtime.ts\<close> keeps the runtime
  object, \<open>index.ts\<close> the webhook handler, the message pipeline, the delivery of replies and the
  registration.  The runtime object belongs to the SDK \<open>openclaw/plugin-sdk\<close>, whose members the code
  calls through optional chaining: each is an optional parameter, and an absent one yields
  \<open>undefined\<close>.
\<close>

section \<open>The runtime\<close>

record core_runtime =
  resolveAgentRoute :: "(jsval \<Rightarrow> jserr + jsval) option"
  resolveStorePath :: "(jsval \<Rightarrow> jsval \<Rightarrow> jserr + jsval) option"
  readSessionUpdatedAt :: "(jsval \<Rightarrow> jserr + jsval) option"
  recordInboundSession :: "(jsval \<Rightarrow> unit act) option"
  resolveEnvelopeFormatOptions :: "(jsval \<Rightarrow> jserr + jsval) option"
  formatAgentEnvelope :: "(jsval \<Rightarrow> jserr + jsval) option"
  finalizeInboundContext :: "(jsval \<Rightarrow> jserr + jsval) option"
  dispatchReply :: "(jsval \<Rightarrow> jsval \<Rightarrow> (jsval \<Rightarrow> unit act) \<Rightarrow> unit act) option"

text \<open>The module variables \<open>runtime\<close> and \<open>_globalConfig\<close>.\<close>

record plugin_state =
  runtime :: "core_runtime option"
  globalConfig :: jsval

definition setRuntime :: "core_runtime \<Rightarrow> plugin_state \<Rightarrow> plugin_state" where
  "setRuntime next' st = st\<lparr>runtime := Some next'\<rparr>"

definition getRuntime :: "plugin_state \<Rightarrow> jserr + core_runtime" where
  "getRuntime st =
     (case runtime st of None \<Rightarrow> throw_error ''WeChat runtime not initialized'' | Some r \<Rightarrow> Inr r)"

section \<open>Delivery\<close>

definition delivery_body :: "jsval \<Rightarrow> jsval" where
  "delivery_body text = obj [(''success'', BoolV True), (''result'', text), (''metadata'', obj [])]"

definition deliverWeChatReply :: "jsval \<Rightarrow> jsval \<Rightarrow> unit act" where
  "deliverWeChatReply text callbackUrl =
     (if \<not> truthy text \<or> \<not> truthy callbackUrl then Return ()
      else try_catch
        (await (http \<lparr>rq_method = POST, rq_url = to_str callbackUrl, rq_params = [],
                      rq_body = Some (delivery_body text), rq_timeout = None\<rparr>) (\<lambda>_. Return ()))
        (\<lambda>error. Return ()))"

section \<open>The pipeline\<close>

definition opt_chain :: "jsval \<Rightarrow> string list \<Rightarrow> jsval" where
  "opt_chain v names = foldl opt_prop v names"

definition call1 :: "(jsval \<Rightarrow> jserr + jsval) option \<Rightarrow> jsval \<Rightarrow> jserr + jsval" where
  "call1 f x = (case f of None \<Rightarrow> Inr Undef | Some g \<Rightarrow> g x)"

text \<open>\<open>`User ${senderId.slice(0, 4)}`\<close>; only strings and arrays have \<open>slice\<close>.\<close>

definition default_name :: "jsval \<Rightarrow> jserr + jsval" where
  "default_name senderId =
     (case senderId of
        StrV s \<Rightarrow> Inr (StrV (js ''User '' @ take 4 s))
      | ArrV xs \<Rightarrow> Inr (StrV (js ''User '' @ to_str (ArrV (take 4 xs))))
      | _ \<Rightarrow> Inl (ErrorObj TypeError (js ''senderId.slice is not a function'') None))"

definition or_else :: "jsval \<Rightarrow> jserr + jsval \<Rightarrow> jserr + jsval" where
  "or_else v m = (if truthy v then Inr v else m)"

definition wechat_id :: "jsval \<Rightarrow> jsval" where
  "wechat_id senderId = StrV (js ''wechat:'' @ to_str senderId)"

definition fallback_route :: "jsval \<Rightarrow> jsval \<Rightarrow> jsval \<Rightarrow> jsval" where
  "fallback_route config accountId senderId =
     obj [(''agentId'', js_or (opt_chain config [''plugins'', ''entries'', ''webhook-server'', ''config'', ''agentId''])
                           (str_val ''default'')),
          (''accountId'', accountId), (''sessionKey'', wechat_id senderId)]"

text \<open>
  \<open>processMessageWithPipeline\<close>.  The constant \<open>DEFAULT_ACCOUNT_ID\<close> of the SDK is the parameter
  \<open>account\<close>; the callback passed to the dispatcher closes over the callback URL and the plugin state.
\<close>

definition deliver_callback :: "plugin_state \<Rightarrow> jsval \<Rightarrow> jsval \<Rightarrow> unit act" where
  "deliver_callback st callbackUrl deliverPayload =
     await (lift_sum (get_prop deliverPayload ''text'')) (\<lambda>text.
     deliverWeChatReply text
       (js_or callbackUrl (opt_chain (globalConfig st) [''channels'', ''wechat'', ''config'', ''callbackUrl''])))"

definition inbound_context :: "jsval \<Rightarrow> jsval \<Rightarrow> jsval \<Rightarrow> jsval \<Rightarrow> jsval \<Rightarrow> jsval \<Rightarrow> jsval \<Rightarrow> jsval \<Rightarrow> jsval" where
  "inbound_context formattedBody text senderId sessionKey accountId agentId senderName callbackUrl =
     obj [(''Body'', formattedBody), (''RawBody'', text), (''From'', wechat_id senderId),
          (''To'', str_val ''wechat:bot''), (''SessionKey'', sessionKey), (''AccountId'', accountId),
          (''AgentId'', js_or agentId accountId), (''ChatType'', str_val ''direct''),
          (''ConversationLabel'', senderName), (''SenderName'', senderName), (''SenderId'', senderId),
          (''Provider'', str_val ''wechat''), (''Surface'', str_val ''wechat''),
          (''_CallbackUrl'', callbackUrl)]"

definition message_timestamp :: "jsval \<Rightarrow> jsval act" where
  "message_timestamp metadata =
     (let ts = opt_prop metadata ''timestamp''
      in if truthy ts then Return (NumV (num_mul (to_num ts) (num_int 1000)))
         else await date_now (\<lambda>t. Return (int_val t)))"

definition processMessageWithPipeline :: "jsval \<Rightarrow> plugin_state \<Rightarrow> jsval \<Rightarrow> unit act" where
  "processMessageWithPipeline account st payload =
     await (lift_sum (getRuntime st)) (\<lambda>core.
     let accountId = account; config = js_or (globalConfig st) (obj []) in
     await (lift_sum (get_prop payload ''metadata'')) (\<lambda>metadata.
     let senderId = js_or (opt_prop metadata ''openid'') (str_val ''unknown_user'') in
     await (lift_sum (or_else (opt_prop metadata ''nickname'') (default_name senderId))) (\<lambda>senderName.
     await (lift_sum (get_prop payload ''task'')) (\<lambda>text.
     await (lift_sum (call1 (resolveAgentRoute core)
              (obj [(''cfg'', config), (''channel'', str_val ''wechat''), (''accountId'', accountId),
                    (''peer'', obj [(''kind'', str_val ''dm''), (''id'', senderId)])]))) (\<lambda>resolved.
     let route = js_or resolved (fallback_route config accountId senderId);
         sessionKey = js_or (opt_prop route ''sessionKey'') (wechat_id senderId) in
     await (lift_sum (get_prop payload ''callback_url'')) (\<lambda>callbackUrl.
     await (lift_sum (case resolveStorePath core of
              None \<Rightarrow> Inr Undef
            | Some f \<Rightarrow> f (opt_chain config [''session'', ''store'']) (obj [(''agentId'', opt_prop route ''agentId'')])))
       (\<lambda>storePath.
     await (lift_sum (call1 (resolveEnvelopeFormatOptions core) config)) (\<lambda>envelopeOptions.
     await (lift_sum (call1 (readSessionUpdatedAt core)
              (obj [(''storePath'', storePath), (''sessionKey'', sessionKey)]))) (\<lambda>previousTimestamp.
     await (message_timestamp metadata) (\<lambda>timestamp.
     await (lift_sum (call1 (formatAgentEnvelope core)
              (obj [(''channel'', str_val ''WeChat''), (''from'', senderName), (''timestamp'', timestamp),
                    (''previousTimestamp'', previousTimestamp), (''envelope'', envelopeOptions), (''body'', text)])))
       (\<lambda>formatted.
     await (lift_sum (call1 (finalizeInboundContext core)
              (inbound_context (js_or formatted text) text senderId sessionKey accountId
                 (opt_prop route ''agentId'') senderName callbackUrl))) (\<lambda>ctxPayload.
     if \<not> truthy ctxPayload then Return ()
     else await (case recordInboundSession core of
                   None \<Rightarrow> Return ()
                 | Some f \<Rightarrow> f (obj [(''storePath'', storePath), (''sessionKey'', sessionKey), (''ctx'', ctxPayload)]))
            (\<lambda>_. case dispatchReply core of
                    None \<Rightarrow> Return ()
                  | Some f \<Rightarrow> f ctxPayload config (deliver_callback st callbackUrl))))))))))))))"

text \<open>\<open>processMessageWithPipeline(body).catch(..)\<close>\<close>

definition pipeline_task :: "jsval \<Rightarrow> plugin_state \<Rightarrow> jsval \<Rightarrow> unit act" where
  "pipeline_task account st payload = try_catch (processMessageWithPipeline account st payload) (\<lambda>err. Return ())"

section \<open>The webhook\<close>

text \<open>The chunks of a request, or the error of its stream; \<open>JSON.parse\<close> of their UTF-8 text.\<close>

definition readJsonBody :: "jserr + bytes list \<Rightarrow> jserr + jsval" where
  "readJsonBody incoming =
     sum_bind incoming (\<lambda>chunks.
       let raw = utf8_decode (concat chunks) in if raw = [] then Inr (obj []) else json_parse raw)"

record http_answer =
  an_status :: nat
  an_body :: jsstr

definition webhook_path :: "jsstr option \<Rightarrow> bool" where
  "webhook_path url =
     (case url of None \<Rightarrow> True | Some u \<Rightarrow> u = [] \<or> ends_with u (js ''/webhook'') \<or> u = js ''/'')"

text \<open>
  What a call does to the response and to the pipeline, in order; the result also says whether the request
  was taken.  \<open>StartPipeline\<close> is the call of \<open>processMessageWithPipeline\<close> that is not awaited: an asynchronous
  function whose rejection has a handler of its own, so it never reaches the \<open>catch\<close> block.
\<close>

datatype webhook_event = Answer http_answer | StartPipeline jsval

definition handleWebhookRequest :: "jsstr \<Rightarrow> jsstr option \<Rightarrow> jserr + bytes list \<Rightarrow> bool \<times> webhook_event list" where
  "handleWebhookRequest meth url incoming =
     (if meth \<noteq> js ''POST'' then (False, [])
      else if \<not> webhook_path url then (False, [])
      else case
        sum_bind (readJsonBody incoming) (\<lambda>body.
        sum_bind (get_prop body ''task'') (\<lambda>task.
        if \<not> truthy task
        then Inr [Answer \<lparr>an_status = 400, an_body = stringify (obj [(''error'', str_val ''Missing task'')])\<rparr>]
        else Inr [Answer \<lparr>an_status = 202, an_body = stringify (obj [(''status'', str_val ''accepted'')])\<rparr>,
                  StartPipeline body]))
      of Inl err \<Rightarrow> (True, [Answer \<lparr>an_status = 500, an_body = js ''Internal Server Error''\<rparr>])
       | Inr events \<Rightarrow> (True, events))"

section \<open>Registration\<close>

text \<open>
  The channel the plugin registers and its dock.  \<open>DEFAULT_ACCOUNT_ID\<close> and the value of
  \<open>emptyPluginConfigSchema()\<close> are the parameters \<open>account\<close> and \<open>schema\<close>.
\<close>

record channel_plugin =
  cp_id :: jsstr
  cp_meta :: jsval
  cp_configSchema :: jsval
  cp_capabilities :: jsval
  cp_listAccountIds :: "jsval list"
  cp_resolveAccount :: "jsval \<Rightarrow> jsval"
  cp_defaultAccountId :: jsval
  cp_isConfigured :: bool
  cp_describeAccount :: jsval
  cp_configPrefixes :: "jsstr list"

record channel_dock =
  cd_id :: jsstr
  cd_capabilities :: jsval
  cd_resolveAllowFrom :: "jsval list"
  cd_formatAllowFrom :: "jsval list"

definition resolveAccount :: "jsval \<Rightarrow> jsval \<Rightarrow> jsval" where
  "resolveAccount account cfg =
     obj [(''accountId'', account), (''name'', str_val ''Default''), (''enabled'', BoolV True),
          (''config'', js_or (opt_chain cfg [''plugins'', ''entries'', ''webhook-server'', ''config'']) (obj []))]"

definition listAccountIds :: "jsval \<Rightarrow> jsval list" where
  "listAccountIds account = [account]"

definition describeAccount :: "jsval \<Rightarrow> jsval" where
  "describeAccount account = obj [(''accountId'', account), (''name'', str_val ''Default''),
     (''enabled'', BoolV True), (''configured'', BoolV True)]"

definition channel_capabilities :: jsval where
  "channel_capabilities =
     obj [(''chatTypes'', ArrV [str_val ''direct'']), (''media'', BoolV False), (''blockStreaming'', BoolV True)]"

definition wechatPlugin :: "jsval \<Rightarrow> jsval \<Rightarrow> channel_plugin" where
  "wechatPlugin account schema =
     \<lparr>cp_id = js ''wechat'',
      cp_meta = obj [(''id'', str_val ''wechat''), (''label'', str_val ''WeChat''),
        (''selectionLabel'', str_val ''WeChat (Bridge)''),
        (''description'', str_val ''WeChat integration via Bridge Webhook''), (''docsPath'', str_val [])],
      cp_configSchema = schema, cp_capabilities = channel_capabilities,
      cp_listAccountIds = listAccountIds account, cp_resolveAccount = resolveAccount account,
      cp_defaultAccountId = account, cp_isConfigured = True, cp_describeAccount = describeAccount account,
      cp_configPrefixes = [js ''channels.wechat'', js ''plugins.entries.webhook-server'']\<rparr>"

definition wechatDock :: channel_dock where
  "wechatDock = \<lparr>cd_id = js ''wechat'', cd_capabilities = channel_capabilities,
     cd_resolveAllowFrom = [], cd_formatAllowFrom = []\<rparr>"

text \<open>The calls \<open>register\<close> makes on the plugin API, in order, and the next state.\<close>

datatype registration = RegisterChannel channel_plugin channel_dock | RegisterHttpHandler | LogInfo jsstr

definition register ::
    "jsval \<Rightarrow> jsval \<Rightarrow> core_runtime \<Rightarrow> jsval \<Rightarrow> plugin_state \<Rightarrow> plugin_state \<times> registration list" where
  "register account schema api_runtime api_config st =
     (let st1 = setRuntime api_runtime st; st2 = st1\<lparr>globalConfig := api_config\<rparr>
      in (st2, [RegisterChannel (wechatPlugin account schema) wechatDock, RegisterHttpHandler,
                LogInfo (js ''WeChat Webhook Channel registered'')]))"

section \<open>Lemmas\<close>

text \<open>The answer to a POST on a webhook path, by what was read of its body.\<close>

lemma handleWebhookRequest_unread:
  "webhook_path url \<Longrightarrow> readJsonBody incoming = Inl e \<Longrightarrow>
     handleWebhookRequest (js ''POST'') url incoming = (True, [Answer \<lparr>an_status = 500, an_body = js ''Internal Server Error''\<rparr>])"
  by (simp add: handleWebhookRequest_def)

lemma handleWebhookRequest_read:
  "webhook_path url \<Longrightarrow> readJsonBody incoming = Inr body \<Longrightarrow>
     handleWebhookRequest (js ''POST'') url incoming = (True,
       if body = Undef \<or> body = Null then [Answer \<lparr>an_status = 500, an_body = js ''Internal Server Error''\<rparr>]
       else if \<not> truthy (opt_prop body ''task'')
       then [Answer \<lparr>an_status = 400, an_body = stringify (obj [(''error'', str_val ''Missing task'')])\<rparr>]
       else [Answer \<lparr>an_status = 202, an_body = stringify (obj [(''status'', str_val ''accepted'')])\<rparr>, StartPipeline body])"
  by (cases body) (simp_all add: handleWebhookRequest_def opt_prop_def)

lemma handleWebhookRequest_ignored:
  "meth \<noteq> js ''POST'' \<or> \<not> webhook_path url \<Longrightarrow> handleWebhookRequest meth url incoming = (False, [])"
  by (auto simp: handleWebhookRequest_def)

lemma no_throw_pipeline_task: "no_throw (pipeline_task account st payload)"
  unfolding pipeline_task_def by (rule safe_try_catch [where F = "\<lambda>_. True"]) simp_all

lemma no_throw_deliverWeChatReply: "no_throw (deliverWeChatReply text url)"
  unfolding deliverWeChatReply_def by (auto intro!: safe_try_catch [where F = "\<lambda>_. True"])

text \<open>What is posted for a reply, and that nothing is posted without a text or without an address.\<close>

definition delivery_request :: "jsval \<Rightarrow> jsval \<Rightarrow> http_req" where
  "delivery_request url text =
     \<lparr>rq_method = POST, rq_url = to_str url, rq_params = [], rq_body = Some (delivery_body text), rq_timeout = None\<rparr>"

lemma transcript_deliver:
  "transcript sv (deliverWeChatReply text url) w =
     (if truthy text \<and> truthy url
      then [(Http (delivery_request url text), fst (sv w (Http (delivery_request url text))))] else [])"
  by (simp add: deliverWeChatReply_def delivery_request_def http_def split: resp.split)

lemma json_ok_delivery_body: "json_ok text \<Longrightarrow> json_ok (delivery_body text)"
  by (simp add: delivery_body_def obj_def js_inj)

text \<open>Before \<open>register\<close> has run, a message is refused; afterwards the runtime is the registered one.\<close>

lemma getRuntime_register: "getRuntime (fst (register account schema rt cfg st)) = Inr rt"
  by (simp add: register_def setRuntime_def getRuntime_def Let_def)

lemma pipeline_unregistered:
  "runtime st = None \<Longrightarrow> processMessageWithPipeline account st payload =
     Throw (ErrorObj GenericError (js ''WeChat runtime not initialized'') None)"
  by (simp add: processMessageWithPipeline_def getRuntime_def)

text \<open>A body that arrives in pieces is read as the whole.\<close>

lemma readJsonBody_stringify:
  assumes "concat chunks = utf8_encode (stringify v)" "json_ok v" "well_formed (stringify v)" "stringify v \<noteq> []"
  shows "readJsonBody (Inr chunks) = Inr v"
  using assms by (simp add: readJsonBody_def utf8_roundtrip json_parse_stringify)

end
