(* ===== verification/Contract.thy ===== *)
theory Contract
  imports App Plugin
begin

text \<open>
  The HTTP contract between the bridge and the plugin in the VM: what \<open>doForward\<close> posts is accepted by
  \<open>handleWebhookRequest\<close>, and what \<open>deliverWeChatReply\<close> posts back is read by the callback endpoint as
  the text the agent produced.  Both directions pass through JSON and UTF-8.
\<close>

section \<open>JSON text is well-formed UTF-16\<close>

lemma well_formed_append: "well_formed a \<Longrightarrow> well_formed (a @ b) = well_formed b"
proof (induction a rule: well_formed.induct)
  case (2 c)
  then show ?case by (cases b) (auto simp: is_high_def is_low_def)
next
  case (3 c d s)
  then show ?case by (auto split: if_splits)
qed simp

lemma well_formed_Cons: "\<not> is_high c \<Longrightarrow> \<not> is_low c \<Longrightarrow> well_formed (c # s) = well_formed s"
  using well_formed_append [of "[c]" s] by simp

lemma well_formed_join: "well_formed sep \<Longrightarrow> list_all well_formed xs \<Longrightarrow> well_formed (join sep xs)"
  by (induction sep xs rule: join.induct) (simp_all add: well_formed_append)

lemma well_formed_small: "list_all (\<lambda>c. unat c < 55296) s \<Longrightarrow> well_formed s"
  by (induction s rule: well_formed.induct) (auto simp: is_high_def is_low_def split: if_splits)

lemma unat_hex_digit: "d < 16 \<Longrightarrow> unat (hex_digit d) < 128"
  by (auto simp: hex_digit_def unat_of_nat_char)

lemma well_formed_hex4: "well_formed (hex4 c)"
proof (rule well_formed_small)
  have n: "unat c < 65536" by (rule order_less_le_trans [OF unsigned_less]) simp
  then have d: "unat c div 4096 < 16" by (simp add: less_mult_imp_div_less)
  have "unat (hex_digit x) < 55296" if "x < 16" for x
    using unat_hex_digit [OF that] by simp
  with d show "list_all (\<lambda>c. unat c < 55296) (hex4 c)" by (simp add: hex4_def Let_def)
qed

lemma well_formed_quote_unit: "well_formed (quote_unit c)"
  using well_formed_hex4 [of c]
  by (auto simp: quote_unit_def unicode_escape_def well_formed_Cons is_high_def is_low_def)

lemma well_formed_quote_body: "well_formed (quote_body s)"
  by (induction s rule: quote_body.induct) (auto simp: well_formed_quote_unit well_formed_append)

lemma well_formed_quote: "well_formed (json_quote s)"
  using well_formed_quote_body [of s]
  by (simp add: json_quote_def well_formed_Cons well_formed_append is_high_def is_low_def)

lemma small_digit: "is_digit c \<Longrightarrow> unat c < 55296"
  by (simp add: is_digit_def)

lemma well_formed_int_str: "well_formed (int_str i)"
proof (rule well_formed_small)
  have "list_all (\<lambda>c. unat c < 55296) (nat_digits n)" for n
    using nat_digits_all [of n] by (simp add: list_all_iff small_digit)
  then show "list_all (\<lambda>c. unat c < 55296) (int_str i)" by (simp add: int_str_def js_Cons)
qed

lemma well_formed_stringify: "json_ok v \<Longrightarrow> well_formed (stringify v)"
proof (induction v rule: stringify.induct)
  case (4 n)
  then show ?case by (cases n) (simp_all add: well_formed_int_str)
next
  case (6 xs)
  then have "list_all well_formed (map stringify xs)" by (simp add: list_all_iff)
  then show ?case by (simp add: well_formed_Cons well_formed_append well_formed_join is_high_def is_low_def)
next
  case (7 kvs)
  then have "list_all well_formed (map (\<lambda>(k, v). json_quote k @ 58 # stringify v) (filter (\<lambda>(k, v). v \<noteq> Undef) kvs))"
    by (auto simp: list_all_iff well_formed_append well_formed_quote well_formed_Cons is_high_def is_low_def)
  then show ?case by (simp add: well_formed_Cons well_formed_append well_formed_join is_high_def is_low_def)
qed (simp_all add: well_formed_quote js_ascii)

lemma readJsonBody_wire:
  "concat pieces = utf8_encode (stringify v) \<Longrightarrow> json_ok v \<Longrightarrow> readJsonBody (Inr pieces) = Inr v"
  by (simp add: readJsonBody_def utf8_roundtrip well_formed_stringify json_parse_stringify)

section \<open>From the bridge to the plugin\<close>

text \<open>The fields of a message that are forwarded are printable.\<close>

definition forwardable :: "jsval \<Rightarrow> bool" where
  "forwardable m \<longleftrightarrow> (\<forall>k \<in> {''FromUserName'', ''MsgType'', ''MsgId'', ''CreateTime''}. json_ok (opt_prop m k))"

lemma json_ok_webhook_payload: "forwardable m \<Longrightarrow> json_ok task \<Longrightarrow> json_ok (webhook_payload cfg m task)"
  by (simp add: forwardable_def webhook_payload_def json_ok_obj)

lemma opt_prop_obj:
  "opt_prop (obj fs) k = (case get_prop (obj fs) k of Inl _ \<Rightarrow> Undef | Inr x \<Rightarrow> x)"
  by (simp add: opt_prop_def obj_def)

lemma opt_prop_payload:
  "opt_prop (webhook_payload cfg m task) ''task'' = task"
  "opt_prop (webhook_payload cfg m task) ''callback_url'' = StrV (callback_url cfg (opt_prop m ''FromUserName''))"
  by (simp_all add: webhook_payload_def opt_prop_obj js_simps)

lemma webhook_accepts_forward:
  assumes "forwardable m" "task_content m = Inr task" "json_ok task" "truthy task" "webhook_path url"
    and "concat pieces = utf8_encode (stringify (webhook_payload cfg m task))"
  shows "\<exists>a. an_status a = 202 \<and> handleWebhookRequest (js ''POST'') url (Inr pieces) =
     (True, [Answer a, StartPipeline (webhook_payload cfg m task)])"
proof -
  have "readJsonBody (Inr pieces) = Inr (webhook_payload cfg m task)"
    by (rule readJsonBody_wire [OF assms(6) json_ok_webhook_payload [OF assms(1,3)]])
  moreover have "webhook_payload cfg m task \<noteq> Undef" "webhook_payload cfg m task \<noteq> Null"
    by (simp_all add: webhook_payload_def obj_def)
  ultimately show ?thesis
    using assms(4,5) by (simp add: handleWebhookRequest_read opt_prop_payload)
qed

section \<open>From the plugin to the user\<close>

lemma delivery_read_back:
  assumes "t \<noteq> []"
  shows "\<exists>s r e md. get_prop (delivery_body (StrV t)) ''success'' = Inr s \<and> get_prop (delivery_body (StrV t)) ''result'' = Inr r
     \<and> get_prop (delivery_body (StrV t)) ''error'' = Inr e \<and> get_prop (delivery_body (StrV t)) ''metadata'' = Inr md
     \<and> callback_content s r e md = StrV t"
  using assms by (simp add: delivery_body_def js_simps callback_content_def opt_prop_obj)

lemma reply_reaches_callback:
  assumes "opt_prop m ''FromUserName'' = StrV u" "get_prop dp ''text'' = Inr (StrV t)" "t \<noteq> []"
  obtains q r where "transcript sv (deliver_callback st (opt_prop (webhook_payload cfg m task) ''callback_url'') dp) w = [(Http q, r)]"
    and "rq_url q = br_baseUrl (cf_bridge cfg) @ js ''/callback/'' @ u" and "rq_method q = POST"
    and "rq_body q = Some (delivery_body (StrV t))"
proof -
  let ?url = "StrV (callback_url cfg (StrV u))"
  have url: "truthy ?url" by (simp add: callback_url_def)
  have "deliver_callback st (opt_prop (webhook_payload cfg m task) ''callback_url'') dp =
      deliverWeChatReply (StrV t) ?url"
    using assms(1,2) url by (simp add: deliver_callback_def opt_prop_payload js_or_def)
  then have "transcript sv (deliver_callback st (opt_prop (webhook_payload cfg m task) ''callback_url'') dp) w =
      [(Http (delivery_request ?url (StrV t)), fst (sv w (Http (delivery_request ?url (StrV t)))))]"
    using assms(3) url by (simp add: transcript_deliver)
  then show thesis
    by (rule that) (simp_all add: delivery_request_def callback_url_def)
qed

end
