(* ===== verification/Pipeline.thy ===== *)
theory Pipeline
  imports Contract
begin

text \<open>
  The message pipeline of the plugin over an arbitrary runtime of the SDK: what
  \<open>processMessageWithPipeline\<close> itself requests for a message that the bridge has forwarded, and what it
  hands to the reply dispatcher of the SDK.
\<close>

section \<open>Where a tree arrives\<close>

text \<open>
  \<open>reaches sv P m w G\<close>: run against \<open>sv\<close>, \<open>m\<close> first makes requests of \<open>P\<close> only and then goes on as a tree of \<open>G\<close>.
\<close>

definition reaches :: "('w \<Rightarrow> req \<Rightarrow> resp \<times> 'w) \<Rightarrow> (req \<Rightarrow> bool) \<Rightarrow> 'a act \<Rightarrow> 'w \<Rightarrow> ('a act \<Rightarrow> bool) \<Rightarrow> bool" where
  "reaches sv P m w G \<longleftrightarrow> (\<exists>m' w' pre. G m' \<and> run sv m w = run sv m' w'
     \<and> transcript sv m w = pre @ transcript sv m' w' \<and> list_all (\<lambda>(r, x). P r) pre)"

lemma reaches_here: "G m \<Longrightarrow> reaches sv P m w G"
  unfolding reaches_def by (intro exI [of _ m] exI [of _ w] exI [of _ "[]"]) simp

lemma reaches_mono: "reaches sv P m w G \<Longrightarrow> (\<And>m. G m \<Longrightarrow> G' m) \<Longrightarrow> reaches sv P m w G'"
  unfolding reaches_def by blast

lemma reaches_lift:
  assumes "\<And>e. c = Inl e \<Longrightarrow> G (Throw e)" and "\<And>v. c = Inr v \<Longrightarrow> reaches sv P (k v) w G"
  shows "reaches sv P (await (lift_sum c) k) w G"
  using assms by (cases c) (auto intro: reaches_here)

lemma reaches_await:
  assumes "requests P m"
    and "\<And>e. fst (run sv m w) = Threw e \<Longrightarrow> G (Throw e)" and "fst (run sv m w) = Exhausted \<Longrightarrow> G Diverge"
    and "\<And>v w'. fst (run sv m w) = Returned v \<Longrightarrow> reaches sv P (k v) w' G"
  shows "reaches sv P (await m k) w G"
  using assms
proof (induction m arbitrary: w)
  case (Perform r c)
  let ?x = "fst (sv w r)" and ?w = "snd (sv w r)"
  have "reaches sv P (await (c ?x) k) ?w G"
    by (rule Perform.IH) (use Perform.prems in \<open>auto simp: split_beta\<close>)
  then obtain m' w' pre where m: "G m'" "run sv (await (c ?x) k) ?w = run sv m' w'"
      "transcript sv (await (c ?x) k) ?w = pre @ transcript sv m' w'" "list_all (\<lambda>(r, x). P r) pre"
    unfolding reaches_def by blast
  with Perform.prems(1) show ?case
    unfolding reaches_def by (intro exI [of _ m'] exI [of _ w'] exI [of _ "(r, ?x) # pre"]) (simp add: split_beta)
qed (auto intro: reaches_here)

section \<open>What a forwarded message leads to\<close>

text \<open>
  The steps of the pipeline for a message of \<open>u\<close>: \<open>G\<close> has to hold of the exceptions of the members of the
  runtime, of the end when no context was made, and of the call of the dispatcher.
\<close>

lemma pipeline_reaches:
  fixes P :: "req \<Rightarrow> bool"
  defines "Q \<equiv> \<lambda>r. r = DateNow \<or> P r"
  assumes rt: "runtime st = Some rt" "dispatchReply rt = Some f"
    and u: "opt_prop m ''FromUserName'' = StrV u" "u \<noteq> []"
    and members: "\<And>x e. call1 (resolveAgentRoute rt) x = Inl e \<Longrightarrow> G (Throw e)"
      "\<And>x e. call1 (readSessionUpdatedAt rt) x = Inl e \<Longrightarrow> G (Throw e)"
      "\<And>x e. call1 (resolveEnvelopeFormatOptions rt) x = Inl e \<Longrightarrow> G (Throw e)"
      "\<And>x e. call1 (formatAgentEnvelope rt) x = Inl e \<Longrightarrow> G (Throw e)"
      "\<And>x e. call1 (finalizeInboundContext rt) x = Inl e \<Longrightarrow> G (Throw e)"
      "\<And>x y e. (case resolveStorePath rt of None \<Rightarrow> Inr Undef | Some g \<Rightarrow> g x y) = Inl e \<Longrightarrow> G (Throw e)"
    and clock: "\<And>md w e. fst (run sv (message_timestamp md) w) = Threw e \<Longrightarrow> G (Throw e)"
    and session: "\<And>g x. recordInboundSession rt = Some g \<Longrightarrow> requests P (g x)"
      "\<And>g x w e. recordInboundSession rt = Some g \<Longrightarrow> fst (run sv (g x) w) = Threw e \<Longrightarrow> G (Throw e)"
      "\<And>g x w. recordInboundSession rt = Some g \<Longrightarrow> fst (run sv (g x) w) = Exhausted \<Longrightarrow> G Diverge"
    and falsy: "\<And>x v. call1 (finalizeInboundContext rt) x = Inr v \<Longrightarrow> \<not> truthy v \<Longrightarrow> G (Return ())"
    and dispatch: "\<And>body key agent ctx. call1 (finalizeInboundContext rt)
        (inbound_context body task (StrV u) key account agent (StrV (js ''User '' @ take 4 u)) (StrV (callback_url cfg (StrV u)))) = Inr ctx
      \<Longrightarrow> truthy ctx \<Longrightarrow> G (f ctx (js_or (globalConfig st) (obj [])) (deliver_callback st (StrV (callback_url cfg (StrV u)))))"
  shows "reaches sv Q (processMessageWithPipeline account st (webhook_payload cfg m task)) w G"
proof -
  let ?p = "webhook_payload cfg m task" and ?url = "StrV (callback_url cfg (StrV u))"
  obtain md where md: "get_prop ?p ''metadata'' = Inr md" "opt_prop md ''openid'' = StrV u"
      "opt_prop md ''nickname'' = Undef"
    using u(1) by (simp add: webhook_payload_def js_simps opt_prop_obj)
  have p: "get_prop ?p ''task'' = Inr task" "get_prop ?p ''callback_url'' = Inr ?url"
    using u(1) by (simp_all add: webhook_payload_def js_simps)
  have name: "or_else (opt_prop md ''nickname'') (default_name (StrV u)) = Inr (StrV (js ''User '' @ take 4 u))"
    by (simp add: or_else_def md default_name_def)
  have id: "js_or (StrV u) d = StrV u" for d using u(2) by (simp add: js_or_def)
  have step: "c = Inr v \<Longrightarrow> reaches sv Q (k v) w G \<Longrightarrow> reaches sv Q (await (lift_sum c) k) w G" for c v k w
    by (auto intro: reaches_lift)
  have ts: "requests Q (message_timestamp x)" for x
    by (auto simp: message_timestamp_def date_now_def Let_def Q_def split: resp.split)
  have ts_end: "fst (run sv (message_timestamp x) w) \<noteq> Exhausted" for x w
    by (simp add: message_timestamp_def date_now_def Let_def split: resp.split prod.split)
  have rec: "requests Q (case recordInboundSession rt of None \<Rightarrow> Return () | Some g \<Rightarrow> g x)" for x
    using session(1) by (auto simp: Q_def intro: safe_mono split: option.split)
  have rec_end: "fst (run sv (case recordInboundSession rt of None \<Rightarrow> Return () | Some g \<Rightarrow> g x) w) = Threw e \<Longrightarrow> G (Throw e)"
    "fst (run sv (case recordInboundSession rt of None \<Rightarrow> Return () | Some g \<Rightarrow> g x) w) = Exhausted \<Longrightarrow> G Diverge" for x w e
    using session(2,3) by (auto split: option.splits)
  show ?thesis
    unfolding processMessageWithPipeline_def Let_def
    apply (simp only: getRuntime_def rt(1) option.case)
    apply (rule step, rule refl)
    apply (rule step, rule md(1))
    apply (simp only: md(2) id)
    apply (rule step, rule name)
    apply (rule step, rule p(1))
    apply (rule reaches_lift, erule members)
    apply (rule step, rule p(2))
    apply (rule reaches_lift, erule members)
    apply (rule reaches_lift, erule members)
    apply (rule reaches_lift, erule members)
    apply (rule reaches_await [OF ts], erule clock, simp only: ts_end)
    apply (rule reaches_lift, erule members)
    apply (rule reaches_lift, erule members)
    subgoal premises ctx for _ _ _ _ _ _ _ v
    proof (cases "truthy v")
      case False
      from falsy [OF ctx(7) False] False show ?thesis by (simp add: reaches_here)
    next
      case True
      show ?thesis
        unfolding rt(2) option.case using True
        by (simp, intro reaches_await [OF rec] reaches_here dispatch [OF ctx(7) True]) (erule rec_end)+
    qed
    done
qed

text \<open>The runtime when none of its calls fails.\<close>

definition member_returns :: "(jsval \<Rightarrow> jserr + jsval) option \<Rightarrow> bool" where
  "member_returns p \<longleftrightarrow> (\<forall>g x. p = Some g \<longrightarrow> (\<exists>v. g x = Inr v))"

definition runtime_returns :: "('w \<Rightarrow> req \<Rightarrow> resp \<times> 'w) \<Rightarrow> core_runtime \<Rightarrow> bool" where
  "runtime_returns sv rt \<longleftrightarrow> list_all member_returns [resolveAgentRoute rt, readSessionUpdatedAt rt,
       resolveEnvelopeFormatOptions rt, formatAgentEnvelope rt]
     \<and> (\<forall>g x y. resolveStorePath rt = Some g \<longrightarrow> (\<exists>v. g x y = Inr v))
     \<and> (\<exists>g. finalizeInboundContext rt = Some g \<and> (\<forall>x. \<exists>v. g x = Inr v \<and> truthy v))
     \<and> (\<forall>g x w. recordInboundSession rt = Some g \<longrightarrow> (\<exists>v. fst (run sv (g x) w) = Returned v))
     \<and> (\<forall>w. \<exists>t. fst (sv w DateNow) = GotNum t)"

lemma member_returns_call: "member_returns p \<Longrightarrow> call1 p x \<noteq> Inl e"
  by (cases p) (auto simp: member_returns_def call1_def dest!: spec [of _ x])

lemma pipeline_reaches_dispatch:
  assumes rt: "runtime st = Some rt" "dispatchReply rt = Some f" and u: "opt_prop m ''FromUserName'' = StrV u" "u \<noteq> []"
    and session: "\<And>g x. recordInboundSession rt = Some g \<Longrightarrow> requests P (g x)" and ok: "runtime_returns sv rt"
    and dispatch: "\<And>body key agent ctx. call1 (finalizeInboundContext rt)
        (inbound_context body task (StrV u) key account agent (StrV (js ''User '' @ take 4 u)) (StrV (callback_url cfg (StrV u)))) = Inr ctx
      \<Longrightarrow> truthy ctx \<Longrightarrow> G (f ctx (js_or (globalConfig st) (obj [])) (deliver_callback st (StrV (callback_url cfg (StrV u)))))"
  shows "reaches sv (\<lambda>r. r = DateNow \<or> P r) (processMessageWithPipeline account st (webhook_payload cfg m task)) w G"
proof (rule pipeline_reaches [OF rt u])
  note returns = ok [unfolded runtime_returns_def]
  show "call1 (resolveAgentRoute rt) x = Inl e \<Longrightarrow> G (Throw e)" "call1 (readSessionUpdatedAt rt) x = Inl e \<Longrightarrow> G (Throw e)"
    "call1 (resolveEnvelopeFormatOptions rt) x = Inl e \<Longrightarrow> G (Throw e)" "call1 (formatAgentEnvelope rt) x = Inl e \<Longrightarrow> G (Throw e)"
    for x e using returns by (auto simp: member_returns_call)
  obtain g where g: "finalizeInboundContext rt = Some g" "\<And>x. \<exists>v. g x = Inr v \<and> truthy v" using returns by blast
  show "call1 (finalizeInboundContext rt) x = Inl e \<Longrightarrow> G (Throw e)" for x e
    using g(1) g(2) [of x] by (auto simp: call1_def)
  show "call1 (finalizeInboundContext rt) x = Inr v \<Longrightarrow> \<not> truthy v \<Longrightarrow> G (Return ())" for x v
    using g(1) g(2) [of x] by (auto simp: call1_def)
  show "(case resolveStorePath rt of None \<Rightarrow> Inr Undef | Some g \<Rightarrow> g x y) = Inl e \<Longrightarrow> G (Throw e)" for x y e
    using returns by (cases "resolveStorePath rt") (auto, metis sum.distinct(1))
  show "fst (run sv (message_timestamp md) w) = Threw e \<Longrightarrow> G (Throw e)" for md w e
  proof -
    obtain t where "fst (sv w DateNow) = GotNum t" using returns by blast
    then show "fst (run sv (message_timestamp md) w) = Threw e \<Longrightarrow> G (Throw e)"
      by (simp add: message_timestamp_def date_now_def Let_def split_beta split: if_splits)
  qed
  show "recordInboundSession rt = Some g \<Longrightarrow> fst (run sv (g x) w) = Threw e \<Longrightarrow> G (Throw e)"
    "recordInboundSession rt = Some g \<Longrightarrow> fst (run sv (g x) w) = Exhausted \<Longrightarrow> G Diverge" for g x w e
    using returns by (metis outcome.distinct(1,3))+
qed (use session dispatch in auto)

end
