(* ===== verification/Server.thy ===== *)
theory Server
  imports App
begin

text \<open>
  \<open>index.ts\<close> and the start of \<open>buildApp\<close> in \<open>app.ts\<close>: loading the configuration, starting the server and
  shutting it down.  What the process does is the list of its events; the socket that \<open>app.listen\<close>
  binds and the results of \<open>app.close\<close> and \<open>quit\<close> are parameters.  Console output is left out.
\<close>

section \<open>The options of the application\<close>

record app_options =
  ao_level :: jsstr
  ao_transport :: "(jsstr \<times> jsval) option"

definition appOptions :: "environment \<Rightarrow> app_options" where
  "appOptions env =
     \<lparr>ao_level = env_or env ''LOG_LEVEL'' (js ''info''),
      ao_transport = (if isDevelopment env
        then Some (js ''pino-pretty'', obj [(''translateTime'', str_val ''HH:MM:ss Z''), (''ignore'', str_val ''pid,hostname'')])
        else None)\<rparr>"

section \<open>Starting\<close>

datatype server_event =
    Listen "int option" jsstr
  | LogError jserr
  | HandleSignals
  | CloseApp
  | QuitRedis redis_client
  | ExitProcess nat

text \<open>What \<open>wechatRoutes\<close> does when it is registered; the framework registers plugins before it listens.\<close>

definition wechatRoutes_setup ::
    "environment \<Rightarrow> module_state \<Rightarrow> (jserr + config \<times> orchestrator_client) \<times> module_state" where
  "wechatRoutes_setup env m =
     (case getConfig env m of
        (Inl e, m1) \<Rightarrow> (Inl e, m1)
      | (Inr cfg, m1) \<Rightarrow>
          (case getOrchestratorClient env m1 of
             (Inl e, m2) \<Rightarrow> (Inl e, m2)
           | (Inr orchestrator, m2) \<Rightarrow> (Inr (cfg, orchestrator), m2)))"

text \<open>
  \<open>main\<close>: the exception that rejects its promise, if any, the events and the module state.  An error of
  the plugins or of the socket is an error of \<open>app.listen\<close>, and after \<open>process.exit\<close> nothing runs.
\<close>

definition main ::
    "environment \<Rightarrow> (int option \<Rightarrow> jsstr \<Rightarrow> jserr option) \<Rightarrow> module_state \<Rightarrow>
     jserr option \<times> server_event list \<times> module_state" where
  "main env bind m =
     (case loadConfig env of
        Inl e \<Rightarrow> (Some e, [], m)
      | Inr cfg \<Rightarrow>
          (let (routes, m1) = wechatRoutes_setup env m;
               listen_error = (case routes of Inl e \<Rightarrow> Some e | Inr _ \<Rightarrow> bind (cf_port cfg) (cf_host cfg));
               started = [Listen (cf_port cfg) (cf_host cfg)]
           in case listen_error of
                Some err \<Rightarrow> (None, started @ [LogError err, ExitProcess 1], m1)
              | None \<Rightarrow> (None, started @ [HandleSignals], m1)))"

section \<open>Shutting down\<close>

definition shutdown ::
    "jserr option \<Rightarrow> (redis_client \<Rightarrow> jserr option) \<Rightarrow> module_state \<Rightarrow>
     jserr option \<times> server_event list \<times> module_state" where
  "shutdown close_error quit_error m =
     (case close_error of
        Some e \<Rightarrow> (Some e, [CloseApp], m)
      | None \<Rightarrow>
          (case closeRedis m of
             (None, m1) \<Rightarrow> (None, [CloseApp, ExitProcess 0], m1)
           | (Some r, m1) \<Rightarrow>
               (case quit_error r of
                  Some e \<Rightarrow> (Some e, [CloseApp, QuitRedis r], m)
                | None \<Rightarrow> (None, [CloseApp, QuitRedis r, ExitProcess 0], m1))))"

section \<open>Lemmas\<close>

definition fresh_modules :: module_state where
  "fresh_modules = \<lparr>configInstance = None, redisClient = None, orchestratorClient = None, clients_made = 0\<rparr>"

definition client_of :: "config \<Rightarrow> orchestrator_client" where
  "client_of cfg = \<lparr>client_baseURL = oc_url (cf_orchestrator cfg),
     client_timeout = oc_vmReadyTimeoutMs (cf_orchestrator cfg)\<rparr>"

lemma wechatRoutes_setup_fresh:
  "loadConfig env = Inr cfg \<Longrightarrow>
     wechatRoutes_setup env fresh_modules =
       (Inr (cfg, client_of cfg), fresh_modules\<lparr>configInstance := Some cfg, orchestratorClient := Some (client_of cfg)\<rparr>)"
  by (simp add: wechatRoutes_setup_def getConfig_def getOrchestratorClient_def fresh_modules_def client_of_def Let_def)

lemma main_fresh:
  "main env bind fresh_modules =
    (case loadConfig env of
       Inl e \<Rightarrow> (Some e, [], fresh_modules)
     | Inr cfg \<Rightarrow> (None,
         Listen (cf_port cfg) (cf_host cfg) #
           (case bind (cf_port cfg) (cf_host cfg) of None \<Rightarrow> [HandleSignals] | Some err \<Rightarrow> [LogError err, ExitProcess 1]),
         fresh_modules\<lparr>configInstance := Some cfg, orchestratorClient := Some (client_of cfg)\<rparr>))"
  by (simp add: main_def wechatRoutes_setup_fresh Let_def split: sum.split option.split)

text \<open>The configuration is cached: no later change of the environment is seen.\<close>

lemma getConfig_after_main:
  assumes "main env bind fresh_modules = (None, evs, m)" and "loadConfig env = Inr cfg"
  shows "getConfig env' m = (Inr cfg, m)"
  using assms by (auto simp: main_fresh getConfig_def)

text \<open>A shutdown ends the process with 0 exactly when nothing failed, and Redis is closed after the server.\<close>

lemma shutdown_events:
  assumes "shutdown close_error quit_error m = (failure, evs, m')"
  shows "ExitProcess 0 \<in> set evs \<longleftrightarrow> failure = None"
    and "failure = None \<Longrightarrow> redisClient m' = None"
    and "failure = None \<Longrightarrow> evs = CloseApp # (case redisClient m of None \<Rightarrow> [] | Some r \<Rightarrow> [QuitRedis r]) @ [ExitProcess 0]"
  using assms by (auto simp: shutdown_def closeRedis_def split: option.splits)

end
