(* ===== verification/TokenCache.thy ===== *)
theory TokenCache
  imports WechatToken Keyspace
begin

text \<open>
  The life of a token: what \<open>getAccessToken\<close> fetches and stores is what the next call reads, until ten
  minutes before the expiry that WeChat announced.
\<close>

definition token_answer :: "jsval \<Rightarrow> int \<Rightarrow> jsval" where
  "token_answer tok e = obj [(''access_token'', tok), (''expires_in'', int_val e)]"

text \<open>The store after a fetch: the token with its time to live, and the lock gone again.\<close>

definition fetched :: "config \<Rightarrow> jsval \<Rightarrow> int \<Rightarrow> keyspace \<Rightarrow> keyspace" where
  "fetched cfg tok e w =
     (let w1 = ks_next (ks_store w TOKEN_LOCK_KEY (js ''1'') (Some 30)) (token_request cfg);
          w2 = ks_store w1 TOKEN_KEY (stringify (token_entry tok (ks_clock w div 1000 + e))) (Some e)
      in w2\<lparr>ks_map := (ks_map w2)(TOKEN_LOCK_KEY := None)\<rparr>)"

lemma ks_next_token [simp]:
  "ks_map (ks_next w q) TOKEN_KEY = ks_map w TOKEN_KEY" "ks_map (ks_next w q) TOKEN_LOCK_KEY = ks_map w TOKEN_LOCK_KEY"
  by (rule ks_map_next_other; simp)+

lemma run_fetch:
  assumes "ks_live w TOKEN_KEY = None" "ks_live w TOKEN_LOCK_KEY = None"
    and "ks_answer w (token_request cfg) = GotHttp \<lparr>rs_status = code, rs_data = token_answer tok e\<rparr>" and "0 < e"
  shows "run ref_service (getAccessToken cfg n) w = (Returned tok, fetched cfg tok e w)"
  using assms
  by (simp add: getAccessToken_eq get_token_with_def refreshAccessToken_def refresh_token_with_def fetch_token_def
      act_simps redis_get_def redis_set_def redis_del_def http_def now_seconds_def date_now_def token_answer_def js_simps
      fetched_def Let_def token_entry_def ks_answer_def ks_store_def)

lemma fetched_frame:
  "ks_live (fetched cfg tok e w) TOKEN_LOCK_KEY = None" "ks_sent (fetched cfg tok e w) = ks_sent w @ [token_request cfg]"
  by (simp_all add: fetched_def Let_def ks_live_def ks_store_def)

text \<open>The same store \<open>d\<close> milliseconds later.\<close>

definition later :: "int \<Rightarrow> keyspace \<Rightarrow> keyspace" where
  "later d w = w\<lparr>ks_clock := ks_clock w + d\<rparr>"

lemma later_fetched:
  "ks_clock (later d (fetched cfg tok e w)) = ks_clock w + d"
  "ks_live (later d (fetched cfg tok e w)) TOKEN_LOCK_KEY = None"
  "ks_live (later d (fetched cfg tok e w)) TOKEN_KEY =
     (if d < 1000 * e then Some (stringify (token_entry tok (ks_clock w div 1000 + e))) else None)"
  by (simp_all add: later_def fetched_def Let_def ks_live_def ks_store_def)

lemma token_reused:
  assumes "json_ok tok" and "\<bar>ks_clock w div 1000 + e\<bar> < 10 ^ 21"
  shows "run ref_service (getAccessToken cfg n) (later d (fetched cfg tok e w)) =
    (if (ks_clock w + d) div 1000 < ks_clock w div 1000 + e - TOKEN_REFRESH_THRESHOLD
     then (Returned tok, later d (fetched cfg tok e w))
     else run ref_service (refreshAccessToken cfg n) (later d (fetched cfg tok e w)))"
proof (cases "d < 1000 * e")
  case True
  then have "ks_live (later d (fetched cfg tok e w)) TOKEN_KEY =
      Some (stringify (token_entry tok (ks_clock w div 1000 + e)))"
    by (simp only: later_fetched if_True)
  from redis_service.run_get_token_with [OF ref_redis_service this assms] show ?thesis
    by (simp add: getAccessToken_eq later_fetched)
next
  case False
  then have "ks_live (later d (fetched cfg tok e w)) TOKEN_KEY = None" by (simp only: later_fetched if_False)
  then have "run ref_service (getAccessToken cfg n) (later d (fetched cfg tok e w)) =
      run ref_service (refreshAccessToken cfg n) (later d (fetched cfg tok e w))"
    by (simp add: getAccessToken_eq get_token_with_def act_simps)
  moreover have "ks_clock w div 1000 + e \<le> (ks_clock w + d) div 1000" using False by linarith
  ultimately show ?thesis by (simp add: TOKEN_REFRESH_THRESHOLD_def)
qed

end
