(* ===== verification/Spec2Isabelle.thy ===== *)
theory Spec2Isabelle
  imports Lifecycle TokenLock Termination Pipeline Server TokenCache
begin

text \<open>
  Clawdotter: a WeChat account in front of personal agents that run in micro-VMs.

  \<^bold>\<open>The program.\<close>  Two TypeScript parts are modelled.  The bridge (\<open>clawdbot-wechat-bridge/src\<close>) is one Node
  process: WeChat posts the messages of the users to \<open>/wechat\<close>, the bridge keeps for each user a binding to
  a VM in Redis, has VMs made, stopped and destroyed by the orchestrator over HTTP, forwards messages to the
  webhook of the VM, and passes what the agent posts to \<open>/callback/:openid\<close> on to the user through the
  customer-service API, for which it shares an access token with its siblings under a Redis lock.  The plugin
  (\<open>clawdbot-plugin-webhook-server/src\<close>) runs inside the VM: its webhook takes a forwarded message, runs it
  through the pipeline of the agent SDK, and posts the replies back to the callback address.

  \<^bold>\<open>How code is modelled.\<close>  A string is a list of UTF-16 code units (\<open>Prelude\<close>, \<open>JsString\<close>), a value of unknown
  shape (parsed XML or JSON, a body, an answer of a service) is a \<open>jsval\<close> with the operators the sources apply
  to it (\<open>JsValue\<close>); a number is \<open>NaN\<close> or a decimal fraction, exact on the integers below
  \<open>2 ^ 53\<close> that the program adds and compares (the one division, of the thinking time, is rounded to binary64).  \<open>Json\<close> is
  \<open>JSON.stringify\<close> and \<open>JSON.parse\<close>, with the round trip.  An exception is an element of \<open>jserr\<close>; code that may throw
  returns \<open>jserr + 'a\<close>.  An asynchronous function is a tree of requests (\<open>Effects\<close>): it returns, throws, or asks
  something of the outside (a Redis command, an HTTP request, the clock, a timer, random numbers, the start
  of a task nobody awaits) and goes on with the answer, which may be a failure.  \<open>await\<close>, \<open>try\<close>/\<open>catch\<close> and \<open>finally\<close>
  are functions on trees; \<open>run\<close> and \<open>transcript\<close> give the result of a tree and what it asked against a service,
  and \<open>safe\<close> and \<open>converges\<close> state what holds of all requests, results and exceptions of a tree.

  \<^bold>\<open>The theories and the files they model.\<close>
  \<^item> \<open>Config\<close>: \<open>config.ts\<close> and the singletons of \<open>redis.ts\<close> and \<open>orchestrator-client.ts\<close>; \<open>Server\<close>: \<open>index.ts\<close> and the
    options of \<open>app.ts\<close>.
  \<^item> \<open>RedisStore\<close>: \<open>services/redis.ts\<close>.  \<open>RedisService\<close> holds its interfaces: the locale \<open>redis_service\<close> is what the code
    relies on of a Redis server and the clock, \<open>redis_lock\<close> extends it by a lock that expires, \<open>binding_store\<close> is
    what the routes rely on of the bindings, and a \<open>sublocale\<close> derives it from the server's laws.  \<open>Keyspace\<close> is a
    reference server that discharges the laws; its HTTP peer may also write to the store during an exchange (\<open>ks_orch\<close>),
    as the orchestrator does, which keeps its own \<open>VMInfo\<close> under the key of the binding.
  \<^item> \<open>WechatToken\<close>, \<open>WechatMessage\<close>, \<open>OrchestratorClient\<close>, \<open>Forwarder\<close>: the other files of \<open>services\<close>; \<open>TokenCache\<close>: the
    life of a token from its fetch to the next one.
  \<^item> \<open>Bytes\<close>, \<open>Sha1\<close>, \<open>Aes\<close>: UTF-8, base64 and buffers, SHA-1 on 32-bit words and AES-256-CBC on bytes, written out
    (a locale \<open>block_cipher\<close> carries the CBC round trip and is interpreted on AES).  \<open>Signature\<close>, \<open>Crypto\<close>, \<open>XmlParser\<close>: the
    files of \<open>utils\<close>; the package \<open>fast-xml-parser\<close> is the parameter \<open>library\<close>.
  \<^item> \<open>WechatRoutes\<close>, \<open>CallbackRoutes\<close>: \<open>routes/wechat.ts\<close> and \<open>routes/callback.ts\<close>, with every handler, task and text; \<open>App\<close>:
    \<open>app.ts\<close>; \<open>Commands\<close>: the grammar of the chat commands.
  \<^item> \<open>Interfaces\<close>: the declared interfaces (\<open>WeChatMessage\<close>, \<open>VMInfo\<close>, the webhook and callback payloads) as records, and what the
    code makes of a value of the declared type.
  \<^item> \<open>RouteSpec\<close>: the abstract machine of a user's VM (no VM, provisioning, running, stopped, error, unknown), the
    refinement of the routing to it, and every command and task run on success and failure, with what the orchestrator
    writes meanwhile; \<open>Lifecycle\<close>: the machine driven by every event of a user (subscription, command,
    ordinary message, end of a task, entry stored by the orchestrator), and the simulation of sequences of HTTP requests,
    tasks and such stores by these machines, in plain and in encrypted mode.
  \<^item> \<open>Plugin\<close>: \<open>index.ts\<close> and \<open>runtime.ts\<close> of the plugin, the SDK being a parameter; \<open>Contract\<close>: the HTTP contract
    between the bridge and the plugin, in both directions; \<open>Pipeline\<close>: the way of a forwarded message to the
    dispatcher of an arbitrary SDK.
  \<^item> \<open>Concurrency\<close>: the bridge as a transition system in which handlers, tasks and writes of the orchestrator interleave
    request by request, with its invariant (rely and guarantee) and its schedules; \<open>TokenLock\<close>: many processes with one
    timed Redis server whose commands may fail, and the exclusion the token lock gives; \<open>Termination\<close>: every handler and
    task comes to an end.

  \<^bold>\<open>What is shown.\<close>  Security and isolation (\<open>post_requires_signature\<close>, \<open>message_isolation\<close>, \<open>callback_isolation\<close>, the encrypted
  mode and its round trip); the life of a VM (refinement of the routing and of the
  whole service by the machine of each user, the outcome of every command and task on success and failure, the invariant under all interleavings, that every request and task ends (\<open>requests_and_tasks_end\<close>), and from the first message to a
  running VM); messages to the user (chunks, numbering, order, bounds on requests, token cache, lock, its exclusion between processes, and loop);
  the path of a message to the agent and of the reply back (\<open>forwarding_posts_once\<close>, \<open>webhook_accepts_forwarded\<close>,
  \<open>webhook_answers\<close>, \<open>pipeline_hands_over\<close>, \<open>reply_returns_to_sender\<close>, \<open>callback_delivers_result\<close>); configuration, start, shutdown and error replies.
  Some theorems show weaknesses of the code: \<open>message_length_bound\<close>, \<open>destroy_during_provisioning\<close>,
  \<open>provisioning_can_end_process\<close>, and the last part of \<open>token_requests_exclusive\<close>.

  \<^bold>\<open>Fuel.\<close>  The only loop that may not end is the retry of \<open>getAccessToken\<close> while another process holds the lock; its
  model counts the retries down and ends in \<open>Diverge\<close>.  \<open>token_loop_ends\<close> shows that one round of fuel for each second
  the lock has left is enough, as the lock expires; the code sets it for 30 seconds, so 31 rounds are enough for every
  handler and task (\<open>requests_and_tasks_end\<close>).  Every other function is total.

  \<^bold>\<open>Assumptions.\<close>  Hypotheses on outside code are the laws of the locales \<open>redis_service\<close> and \<open>redis_lock\<close>; \<open>world_ok\<close> and
  \<open>entry_ok\<close> (a binding in Redis is an object, or absent; \<open>stored_ok\<close> says it of the text); on the orchestrator
  (\<open>internal/vm/manager.go\<close>), \<open>typed_peer\<close> and \<open>vm_data_ok\<close> (it answers about a VM with a \<open>VMInfo\<close>, possibly with further fields, or
  with \<open>null\<close>; the addresses are printable) and \<open>orch_ok\<close> and \<open>lawful\<close>: what it writes are objects with one of the four statuses
  (\<open>orch_entry\<close>), during an exchange only under the key of the user the request is about, or under that of the empty id, since an
  entry of the bridge has no \<open>user_id\<close> to save it under.  This takes for granted that an id in the path of a request
  is read back as it is, which holds of the letters, digits, hyphens and underscores of an OpenID.  The \<open>guarded\<close> runs of
  \<open>contended\<close> are those in which nobody keeps the token lock for its 30 seconds; \<open>lock_bounded\<close> says that the lock in
  the store was set by the code; \<open>runtime_returns\<close> that the calls into the SDK return (nothing is assumed of its dispatcher);
  \<open>step\<close> that an unhandled rejection ends the process, as in current Node.
  Times stay below \<open>10 ^ 21\<close>, beyond which JavaScript prints numbers differently.

  \<^bold>\<open>Not modelled.\<close>  Console output and the web framework's parsing of requests (a \<open>http_request\<close> holds what the framework
  hands over; requests without a route are its own); objects that override \<open>toString\<close> or name members of
  \<open>Object.prototype\<close>; the Go services (\<open>vm-orchestrator\<close>, which appears as the peer that answers and as a writer of bindings, and
  \<open>ssh-gateway\<close>, which only reads them); build files,
  scripts and the declarations of the SDK.
\<close>

section \<open>Concrete inputs for the witnesses\<close>

definition demo_config :: config where
  "demo_config =
     \<lparr>cf_port = Some 3000, cf_host = js ''0.0.0.0'',
      cf_wechat = \<lparr>wc_appId = js ''wx01'', wc_appSecret = js ''secret'', wc_token = js ''token'', wc_encodingAESKey = None\<rparr>,
      cf_redisUrl = js ''redis://localhost:6379'',
      cf_bridge = \<lparr>br_baseUrl = js ''http://bridge'', br_sshHost = js ''ssh.example'', br_sshPort = Some 2222\<rparr>,
      cf_orchestrator = \<lparr>oc_url = js ''http://orchestrator:8080'', oc_vmReadyTimeoutMs = Some 30000\<rparr>\<rparr>"

definition demo_user :: jsval where
  "demo_user = str_val ''u1''"

definition demo_event :: jsval where
  "demo_event = obj [(''FromUserName'', demo_user), (''ToUserName'', str_val ''gh''), (''MsgType'', str_val ''event''),
     (''Event'', str_val ''subscribe'')]"

definition demo_text :: jsval where
  "demo_text = obj [(''FromUserName'', demo_user), (''ToUserName'', str_val ''gh''), (''CreateTime'', int_val 1700000000),
     (''MsgType'', str_val ''text''), (''Content'', str_val ''hello''), (''MsgId'', str_val ''m1'')]"

definition demo_lib :: library where
  "demo_lib = \<lparr>lib_parse = (\<lambda>_. Inr (obj [(''xml'', demo_event)])), lib_build = to_str, lib_date = to_str\<rparr>"

definition demo_query :: wechat_query where
  "demo_query =
     \<lparr>q_signature = Some (generateSignature (js ''token'') (js ''1700000000'') (js ''nonce'')),
      q_timestamp = Some (js ''1700000000''), q_nonce = Some (js ''nonce''), q_echostr = Some (js ''echo''),
      q_encrypt_type = None, q_msg_signature = None\<rparr>"

definition demo_request :: http_request where
  "demo_request = \<lparr>hr_method = POST, hr_path = [js ''wechat''], hr_query = demo_query, hr_body = Undef\<rparr>"

definition demo_world :: keyspace where
  "demo_world = fresh_world 1700000000000 no_peer"

text \<open>Values of the declared types, and a peer that answers every request with the VM \<open>demo_vm\<close>.\<close>

definition demo_info :: vm_info where
  "demo_info = \<lparr>vi_user_id = js ''u1'', vi_status = Running, vi_vm_ip = js ''10.0.0.2'',
     vi_webhook_url = js ''http://10.0.0.2:18789/webhook'', vi_created_at = js ''2025-01-01'', vi_stopped_at = None,
     vi_error_message = None, vi_vcpu_count = 2, vi_mem_size_mib = 512\<rparr>"

definition demo_vm :: jsval where
  "demo_vm = obj [(''user_id'', str_val ''u1''), (''status'', str_val ''running''), (''vm_ip'', str_val ''10.0.0.2''),
     (''webhook_url'', str_val ''http://10.0.0.2:18789/webhook''), (''tap_device'', str_val ''tap2''),
     (''socket_path'', str_val ''/run/u1.sock''), (''created_at'', str_val ''2025-01-01''),
     (''resource_limits'', obj [(''vcpu_count'', int_val 2), (''mem_size_mib'', int_val 512)])]"

definition vm_world :: keyspace where
  "vm_world = fresh_world 1700000000000 (\<lambda>n q. GotHttp \<lparr>rs_status = 200, rs_data = demo_vm\<rparr>)"

text \<open>A world where a creation fails and the orchestrator has stored its own entry, with status error.\<close>

definition failed_entry :: jsval where
  "failed_entry = obj [(''user_id'', str_val ''u1''), (''status'', str_val ''error''), (''vm_ip'', str_val ''10.0.0.9''),
     (''error_message'', str_val ''TAP creation failed'')]"

definition failing_world :: keyspace where
  "failing_world = demo_world\<lparr>ks_orch := (\<lambda>n q. if q = create_request demo_config demo_user
     then [(js ''u1'', Some (stringify failed_entry))] else [])\<rparr>"

definition demo_message :: wechat_message where
  "demo_message = \<lparr>wm_ToUserName = js ''gh'', wm_FromUserName = js ''u1'', wm_CreateTime = 1700000000, wm_MsgType = TextMsg,
     wm_Content = Some (js ''hello''), wm_MsgId = Some (js ''m1''), wm_Event = None, wm_EventKey = None, wm_PicUrl = None,
     wm_MediaId = None, wm_Format = None, wm_Recognition = None, wm_ThumbMediaId = None, wm_Location_X = None,
     wm_Location_Y = None, wm_Scale = None, wm_Label = None, wm_Title = None, wm_Description = None, wm_Url = None\<rparr>"

definition demo_result :: callback_payload where
  "demo_result = \<lparr>cb_success = True, cb_result = Some (js ''hi''), cb_error = None,
     cb_metadata = Some \<lparr>cm_chunks = Some (num_int 1), cm_thinking_time_ms = None\<rparr>\<rparr>"

text \<open>The encrypted mode: an account with a key, and a parser that finds the ciphertext \<open>c\<close>.\<close>

definition demo_enc_config :: config where
  "demo_enc_config = demo_config\<lparr>cf_wechat := (cf_wechat demo_config)\<lparr>wc_encodingAESKey := Some (replicate 43 65)\<rparr>\<rparr>"

definition demo_enc_lib :: "jsstr \<Rightarrow> library" where
  "demo_enc_lib c = demo_lib\<lparr>lib_parse := (\<lambda>_. Inr (obj [(''xml'', obj [(''Encrypt'', StrV c)])]))\<rparr>"

definition demo_enc_query :: "jsstr \<Rightarrow> wechat_query" where
  "demo_enc_query s = demo_query\<lparr>q_encrypt_type := Some (js ''aes''), q_msg_signature := Some s\<rparr>"


lemmas demo_defs = demo_config_def demo_query_def demo_lib_def

lemmas demo_enc_defs = demo_defs demo_enc_config_def demo_enc_lib_def demo_enc_query_def

lemma generateSignature_ne [simp]: "generateSignature a b c \<noteq> []"
  using length_sha1_hex by (auto simp: generateSignature_def Let_def dest: arg_cong [where f = length])

lemma bad_signature [simp]: "js ''bad'' \<noteq> sha1_hex s"
  using length_sha1_hex [of s] by (auto dest: arg_cong [where f = length])

lemma demo_subscribe:
  "postWechat demo_lib demo_config demo_query Undef =
     handleNewUser demo_lib (sendReply demo_config False) demo_user (str_val ''gh'')"
  by (simp add: postWechat_def demo_defs given_def text_of_def validateSignature_generate readMessage_def
      parseWeChatXml_def js_simps handleMessage_def demo_event_def js_inj Let_def)

lemma demo_transcript:
  "transcript ref_service (handleNewUser lib (sendReply cfg False) u v) demo_world =
     [(DateNow, GotNum 1700000000000), (DateNow, GotNum 1700000000000),
      (RedisSet (binding_key u) (stringify (binding_val (initial_binding 1700000000000 1700000000000))) SetPlain, GotBool True),
      (Spawn (ProvisionTask u), Done), (DateNow, GotNum 1700000000000)]"
  by (simp add: handleNewUser_def date_now_def setVMBinding_def redis_set_def spawn_def say_def buildTextReply_def
      now_seconds_def sendReply_def demo_world_def ks_store_def)

lemma demo_absent [simp]: "ks_binding (fresh_world t p) u = Null"
  by (simp add: ks_binding_def decode_binding_def)

lemma demo_world_ok [simp]: "world_ok (fresh_world 1700000000000 p)"
  by (simp add: world_ok_def entry_ok_def)

lemma vm_world_ok [simp]: "world_ok vm_world"
  by (simp add: vm_world_def)

lemma demo_vm_info: "is_vm_info demo_vm demo_info"
  by (simp add: is_vm_info_def vm_info_fields_def demo_vm_def demo_info_def opt_prop_obj js_simps opt_str_def)
    (simp add: obj_def)

lemma typed_vm_world [simp]: "typed_peer cfg vm_world"
  using demo_vm_info by (auto simp: typed_peer_def vm_world_def)

lemma orch_fresh [simp]: "orch_ok cfg (fresh_world t p)" "orch_ok cfg demo_world" "orch_ok cfg vm_world"
  by (simp_all add: orch_ok_def demo_world_def vm_world_def)

lemma json_failed_entry: "json_ok failed_entry" "\<exists>kvs. failed_entry = ObjV kvs" "truthy failed_entry"
  "opt_prop failed_entry ''status'' = str_val ''error''" "opt_prop failed_entry ''vm_ip'' = str_val ''10.0.0.9''"
  by (simp_all add: failed_entry_def json_ok_obj opt_prop_obj js_simps) (simp_all add: obj_def)

lemma orch_failing: "orch_ok demo_config failing_world"
proof -
  have "to_str u = js ''u1''" if "vm_exchange demo_config u (create_request demo_config demo_user)" for u
    using that by (auto simp: vm_exchange_def create_request_def start_request_def stop_request_def destroy_request_def
        passwd_request_def api_request_def demo_user_def obj_def js_inj)
  moreover have "orch_entry (stringify failed_entry)"
    unfolding orch_entry_def using json_failed_entry(1,2,4) json_parse_stringify [OF json_failed_entry(1)]
    by (metis status_str.simps(4))
  moreover have "\<exists>u. vm_exchange demo_config u (create_request demo_config demo_user)"
    by (rule exI) (rule vm_exchange_simps(1))
  ultimately show ?thesis by (auto simp: orch_ok_def failing_world_def split: if_splits)
qed

lemma failing_world_ok: "world_ok failing_world"
  using demo_world_ok [of no_peer]
  by (simp add: world_ok_def failing_world_def demo_world_def ks_binding_def ks_live_def)

lemma failing_left:
  "ks_binding (ks_next failing_world (create_request demo_config demo_user)) demo_user = failed_entry"
proof -
  have "ks_live (ks_next failing_world (create_request demo_config demo_user)) (binding_key demo_user) = Some (stringify failed_entry)"
    by (simp add: ks_live_def ks_next_def failing_world_def demo_user_def binding_key_def)
  then show ?thesis by (simp add: ks_binding_def decode_stringify json_failed_entry)
qed

lemma demo_key_length [simp]: "length (decodeAESKey (replicate 43 65)) = 32"
  by (rule decodeAESKey_length) (simp_all add: b64_val_def list_all_iff)

lemma utf8_js_length: "list_all (\<lambda>c. (of_char c :: nat) < 128) s \<Longrightarrow> length (utf8_encode (js s)) = length s"
proof (induction s)
  case (Cons c s)
  have "code_points (x # t) = unat x # code_points t" if "unat x < 128" for x and t :: jsstr
    using that by (cases t) (auto simp: is_high_def is_low_def)
  moreover have "unat (of_nat (of_char c) :: jschar) = of_char c"
    using of_char_less_256 [of c] by (intro unat_of_nat_char) linarith
  ultimately show ?case using Cons by (simp add: utf8_encode_def js_Cons utf8_point_def)
qed (simp add: utf8_encode_def)

text \<open>A world with a token in its cache, and one where in addition every message is accepted.\<close>

definition token_world :: keyspace where
  "token_world = ks_store demo_world TOKEN_KEY (stringify (token_entry (str_val ''tok'') 2000000000)) None"

definition sending_world :: keyspace where
  "sending_world = ks_store
     (fresh_world 1700000000000 (\<lambda>n q. GotHttp \<lparr>rs_status = 200, rs_data = obj [(''errcode'', int_val 0)]\<rparr>))
     TOKEN_KEY (stringify (token_entry (str_val ''tok'') 2000000000)) None"

lemma token_world_simps [simp]:
  "ks_clock (ks_store w k v None) = ks_clock w" "ks_clock demo_world = 1700000000000"
  "ks_peer (ks_store w k v None) = ks_peer w" "ks_sent (ks_store w k v None) = ks_sent w"
  by (simp_all add: ks_store_def demo_world_def)

lemma sending_token:
  "run ref_service (getAccessToken demo_config 5) sending_world = (Returned (str_val ''tok''), sending_world)"
proof -
  have "run ref_service (get_token_with refresh) sending_world =
      (if 1700000000 < 2000000000 - TOKEN_REFRESH_THRESHOLD
       then (Returned (str_val ''tok''), sending_world) else run ref_service refresh sending_world)" for refresh
    using redis_service.run_get_token_with [OF ref_redis_service, of sending_world "str_val ''tok''" 2000000000 1700000000000 refresh]
    by (simp add: sending_world_def ks_live_store)
  then show ?thesis by (simp add: getAccessToken_eq TOKEN_REFRESH_THRESHOLD_def)
qed

lemma sending_returns:
  "fst (run ref_service (sendTextMessage demo_config 5 demo_user (StrV (js ''hi''))) sending_world) = Returned True"
  by (simp add: sendTextMessage_def content_length_def MAX_LENGTH_def sendCustomerServiceMessage_def send_with_def
      act_simps sending_token ref_run_http ks_answer_def js_simps) (simp add: sending_world_def js_simps)

lemma demo_forwardable [simp]: "forwardable demo_text" "task_content demo_text = Inr (str_val ''hello'')"
  by (simp_all add: forwardable_def demo_text_def opt_prop_obj js_simps demo_user_def task_content_def Let_def js_inj)

section \<open>The properties\<close>

text \<open>C1. A POST to \<open>/wechat\<close> that causes any request to Redis, the orchestrator, the clock or a background task carries the SHA-1 signature of token, timestamp and nonce, and its body was read as a message.\<close>

theorem post_requires_signature:
  assumes "transcript sv (postWechat lib cfg q body) w \<noteq> []"
  shows "text_of (q_signature q) = sha1_hex (concat (sort [wc_token (cf_wechat cfg), text_of (q_timestamp q), text_of (q_nonce q)]))
    \<and> given (q_timestamp q) \<and> given (q_nonce q) \<and> (\<exists>m. readMessage lib cfg q body = Inr (Inr m))"
  using assms by (auto simp: postWechat_def validateSignature_def Let_def split: if_splits sum.splits)

theorem post_requires_signature_witness:
  "text_of (q_signature demo_query) = sha1_hex (concat (sort [js ''token'', js ''1700000000'', js ''nonce'']))"
proof -
  have "transcript ref_service (postWechat demo_lib demo_config demo_query Undef) demo_world \<noteq> []"
    by (simp add: demo_subscribe demo_transcript)
  from post_requires_signature [OF this] show ?thesis by (simp add: demo_defs text_of_def)
qed

text \<open>C2. Against a Redis server that answers, a message that is no command implements the abstract machine on the status of the user: the reply, the next status, the tasks started, no HTTP request, and every other user unchanged.\<close>

theorem route_message_refines:
  assumes "world_ok w"
  shows "let b = ks_binding w u; s = abs_state b in
    case run ref_service (routeMessage lib cfg (sendReply cfg False) m u v) w of
      (Returned r, w') \<Rightarrow> r = plain_answer lib u v (ks_clock w) (route_text b s)
        \<and> abs_state (ks_binding w' u) = route_state s
        \<and> ks_tasks w' = ks_tasks w @ route_tasks u m b s \<and> ks_sent w' = ks_sent w
        \<and> world_ok w' \<and> same_others u w w'
    | _ \<Rightarrow> False"
  using routeMessage_refines [OF assms, of lib u v cfg m] unfolding outcome_of_def Let_def append_Nil2 .

theorem route_message_refines_witness:
  "let w' = snd (run ref_service (routeMessage demo_lib demo_config (sendReply demo_config False) demo_text demo_user demo_user)
       demo_world) in
   abs_state (ks_binding w' demo_user) = Has Provisioning \<and> ks_tasks w' = [ProvisionTask demo_user]"
  using route_message_refines [where w = demo_world and u = demo_user and v = demo_user and lib = demo_lib
      and cfg = demo_config and m = demo_text]
  by (auto simp: Let_def demo_world_def split: prod.splits outcome.splits)

text \<open>C3. The bridge is a family of state machines, one per user: any sequence of HTTP requests and background tasks, each run to its end, in plain or encrypted mode, and of entries the orchestrator stores (during its exchanges or on its own), moves the VM state of a user exactly as the machine does on the events of that user, among them one for each entry stored for him, and never from a known status into one the routing does not know. (The empty id is no user: the orchestrator saves under it what it has read from an entry of the bridge, which has no user_id.)\<close>

theorem service_simulates_machines:
  assumes "world_ok w" and "orch_ok cfg w" and "typed_peer cfg w" and "list_all lawful ps"
    and "ks_clock (fold (op_run lib env cfg n) ps w) < 10 ^ 21"
  shows "\<exists>ess. traced lib env cfg n w ps ess \<and> (\<forall>u. to_str u \<noteq> [] \<longrightarrow>
    abs_state (ks_binding (fold (op_run lib env cfg n) ps w) u) =
      fold vm_next (events_of lib cfg u ps ess) (abs_state (ks_binding w u))
    \<and> (abs_state (ks_binding w u) \<noteq> Strange \<longrightarrow> abs_state (ks_binding (fold (op_run lib env cfg n) ps w) u) \<noteq> Strange))"
proof -
  obtain ess where ess: "traced lib env cfg n w ps ess" "Wrote Strange \<notin> set (concat ess)"
    "\<And>u. to_str u \<noteq> [] \<Longrightarrow> abs_state (ks_binding (fold (op_run lib env cfg n) ps w) u) =
       fold vm_next (events_of lib cfg u ps ess) (abs_state (ks_binding w u))"
    using operations_simulate [OF assms] by blast
  with fold_known events_of_known [OF ess(2)] show ?thesis by (intro exI [of _ ess]) simp
qed

theorem service_simulates_machines_witness:
  "\<exists>ess. traced demo_lib (\<lambda>_. None) demo_config 5 vm_world [Arrives demo_request] ess \<and> length ess = 1
     \<and> abs_state (ks_binding (fold (op_run demo_lib (\<lambda>_. None) demo_config 5) [Arrives demo_request] vm_world) demo_user)
         = Has Provisioning"
proof -
  let ?run = "op_run demo_lib (\<lambda>_. None) demo_config 5"
  have m: "wechat_input demo_lib demo_config demo_request = Some demo_event"
    by (simp add: wechat_input_def demo_request_def demo_defs given_def text_of_def validateSignature_generate readMessage_def
        parseWeChatXml_def js_simps Let_def)
  have "dispatch demo_lib demo_config 5 demo_request =
      Some (handleNewUser demo_lib (sendReply demo_config False) demo_user (str_val ''gh''))"
    by (simp add: dispatch_def demo_request_def demo_subscribe js_inj)
  then have clock: "ks_clock (fold ?run [Arrives demo_request] vm_world) < 10 ^ 21"
    by (simp add: serve_dispatch run_handleNewUser) (simp add: vm_world_def)
  have "to_str demo_user \<noteq> []" by (simp add: demo_user_def)
  with service_simulates_machines [OF vm_world_ok orch_fresh(3) typed_vm_world _ clock]
  obtain es where es: "traced demo_lib (\<lambda>_. None) demo_config 5 vm_world [Arrives demo_request] es"
    "abs_state (ks_binding (fold ?run [Arrives demo_request] vm_world) demo_user)
       = fold vm_next (events_of demo_lib demo_config demo_user [Arrives demo_request] es) (abs_state (ks_binding vm_world demo_user))"
    by auto
  have "a = Subscribe" if "means demo_event a" for a
    using that by (cases a) (simp_all add: demo_event_def opt_prop_obj js_simps js_inj, simp add: obj_def)
  with es(1) m have "es = [[User Subscribe True]]" by (fastforce simp: action_events_def)
  then have "fold vm_next (events_of demo_lib demo_config demo_user [Arrives demo_request] es)
      (abs_state (ks_binding vm_world demo_user)) = Has Provisioning"
    using m by (simp add: events_of_def sender_def demo_event_def opt_prop_obj js_simps js_inj)
  with es \<open>es = _\<close> show ?thesis by (intro exI [of _ es]) simp
qed

text \<open>C4. In every interleaving of request handlers, background tasks and entries the orchestrator stores at any time, with or without failing Redis commands, what stands in Redis under the key of a user is nothing or the JSON text of an object, and the process only ends by an unhandled rejection when Redis commands fail.\<close>

theorem interleaving_invariant:
  assumes "reachable lib env cfg fuel faults s"
  shows "(\<forall>u. sys_keys s (binding_key u) = None
        \<or> (\<exists>text kvs. sys_keys s (binding_key u) = Some text \<and> json_parse text = Inr (ObjV kvs)))
    \<and> (sys_crashed s \<longrightarrow> faults)"
proof (intro conjI allI)
  fix u
  have "stored_ok (sys_keys s (binding_key u))" using reachable_inv [OF assms] by (simp add: system_inv_def bindings_ok_def)
  then show "sys_keys s (binding_key u) = None
      \<or> (\<exists>text kvs. sys_keys s (binding_key u) = Some text \<and> json_parse text = Inr (ObjV kvs))"
    by (cases "sys_keys s (binding_key u)") (auto simp: stored_ok_def)
qed (use reachable_inv [OF assms] in \<open>simp add: system_inv_def\<close>)

theorem interleaving_invariant_witness:
  "\<exists>m text kvs. handleRequest demo_lib (\<lambda>_. None) demo_config 5 demo_request = Some m
    \<and> sys_keys \<lparr>sys_keys = (\<lambda>_. None)(binding_key demo_user := Some (stringify failed_entry)),
         sys_pool = [await m (\<lambda>_. Return ())], sys_crashed = False\<rparr> (binding_key demo_user) = Some text
    \<and> json_parse text = Inr (ObjV kvs)"
proof -
  obtain m where m: "handleRequest demo_lib (\<lambda>_. None) demo_config 5 demo_request = Some m"
    by (auto simp: handleRequest_def dispatch_def demo_request_def js_inj)
  have "reachable demo_lib (\<lambda>_. None) demo_config 5 False \<lparr>sys_keys = (\<lambda>_. None), sys_pool = [], sys_crashed = False\<rparr>"
    by (rule reachable.start) simp
  from reachable.next_state [OF this step.arrive [of False, OF _ m]]
  have "reachable demo_lib (\<lambda>_. None) demo_config 5 False
      \<lparr>sys_keys = (\<lambda>_. None), sys_pool = [await m (\<lambda>_. Return ())], sys_crashed = False\<rparr>" by simp
  moreover have "stored_ok (Some (stringify failed_entry))"
    using json_failed_entry(2) by (intro stored_ok_stringify json_failed_entry) (auto simp: entry_ok_def json_failed_entry)
  ultimately have "reachable demo_lib (\<lambda>_. None) demo_config 5 False
      \<lparr>sys_keys = (\<lambda>_. None)(binding_key demo_user := Some (stringify failed_entry)),
       sys_pool = [await m (\<lambda>_. Return ())], sys_crashed = False\<rparr>"
    by (intro reachable.next_state [OF _ step.outside]) simp_all
  note inv = interleaving_invariant [OF this, THEN conjunct1, THEN spec, of demo_user]
  have "\<exists>text kvs. sys_keys \<lparr>sys_keys = (\<lambda>_. None)(binding_key demo_user := Some (stringify failed_entry)),
       sys_pool = [await m (\<lambda>_. Return ())], sys_crashed = False\<rparr> (binding_key demo_user) = Some text
     \<and> json_parse text = Inr (ObjV kvs)"
    using inv by (rule disjE) (simp_all only: system.select_convs fun_upd_same option.distinct)
  with m show ?thesis by blast
qed

text \<open>C5. What encryptMessage produces with 16 random bytes, decryptMessage reads back under the same key and account; for another account it throws the AppID error.\<close>

theorem decrypt_inverts_encrypt:
  assumes "length (decodeAESKey key) = 32" "length rnd = 16" "well_formed message" "well_formed appId"
    and "length (utf8_encode message) < 2 ^ 32"
  shows "\<exists>c. encrypt_with rnd message key appId = Inr c \<and>
    (\<forall>other. decryptMessage (StrV c) key other =
       (if other = appId then Inr message else Inl (appid_mismatch other appId)))"
  by (rule decrypt_encrypt_with [OF assms(1,2,3,5,4)]) blast

theorem decrypt_inverts_encrypt_witness:
  "\<exists>c. encrypt_with (replicate 16 7) (js ''<xml>hi</xml>'') (replicate 43 65) (js ''wx01'') = Inr c \<and>
     decryptMessage (StrV c) (replicate 43 65) (js ''wx01'') = Inr (js ''<xml>hi</xml>'')"
  using decrypt_inverts_encrypt [of "replicate 43 65" "replicate 16 7" "js ''<xml>hi</xml>''" "js ''wx01''"]
  by (auto simp: demo_key_length js_ascii utf8_js_length)

text \<open>C6. In encrypted mode a message that was encrypted for the account is refused with 403 when it has a msg_signature other than the digest of token, timestamp, nonce and ciphertext, and is read back otherwise; without a msg_signature it is read back unchecked.\<close>

theorem encrypted_message_accepted:
  assumes "wc_encodingAESKey (cf_wechat cfg) = Some key" "length (decodeAESKey key) = 32" "key \<noteq> []"
    and "well_formed xml" "length (utf8_encode xml) < 2 ^ 32" "well_formed (wc_appId (cf_wechat cfg))"
    and "length rnd = 16" "encrypt_with rnd xml key (wc_appId (cf_wechat cfg)) = Inr c"
    and "extractEncryptedContent (lib_parse lib) body = Inr (StrV c)"
    and "q_encrypt_type q = Some (js ''aes'')"
  shows "readMessage lib cfg q body =
    (if given (q_msg_signature q) \<and> text_of (q_msg_signature q) \<noteq>
          sha1_hex (concat (sort [wc_token (cf_wechat cfg), text_of (q_timestamp q), text_of (q_nonce q), c]))
     then Inr (Inl (plain_reply 403 ''Invalid msg_signature''))
     else sum_bind (parseWeChatXml lib (StrV xml)) (\<lambda>m. Inr (Inr m)))"
  using readMessage_encrypted [OF assms(1,3,2,4-10)] by (simp add: generateMsgSignature_def Let_def)

theorem encrypted_message_accepted_witness:
  "\<exists>c. readMessage (demo_enc_lib c) demo_enc_config (demo_enc_query (js ''bad'')) Undef =
     Inr (Inl (plain_reply 403 ''Invalid msg_signature''))"
proof -
  let ?xml = "js ''<xml>hi</xml>''"
  obtain c where c: "encrypt_with (replicate 16 7) ?xml (replicate 43 65) (js ''wx01'') = Inr c"
    by (rule decrypt_encrypt_with [of "replicate 43 65" "replicate 16 7" ?xml "js ''wx01''"])
      (auto simp: js_ascii utf8_js_length)
  have "readMessage (demo_enc_lib c) demo_enc_config (demo_enc_query (js ''bad'')) Undef =
      (if js ''bad'' \<noteq> sha1_hex (concat (sort [js ''token'', js ''1700000000'', js ''nonce'', c]))
       then Inr (Inl (plain_reply 403 ''Invalid msg_signature''))
       else sum_bind (parseWeChatXml (demo_enc_lib c) (StrV ?xml)) (\<lambda>m. Inr (Inr m)))"
    using encrypted_message_accepted [of demo_enc_config "replicate 43 65" ?xml "replicate 16 7" c "demo_enc_lib c" Undef
        "demo_enc_query (js ''bad'')"] c
    by (simp add: demo_enc_defs demo_key_length js_ascii utf8_js_length given_def text_of_def
        extractEncryptedContent_def js_simps opt_prop_obj js_or_def)
  then show ?thesis by auto
qed

text \<open>C7. Whatever the services answer, the handler of a message from user u touches only the Redis key of u, calls the orchestrator only about u, and starts only tasks of u.\<close>

theorem message_isolation:
  assumes "readMessage lib cfg q body = Inr (Inr m)" and "get_prop m ''FromUserName'' = Inr u"
    and "(r, x) \<in> set (transcript sv (postWechat lib cfg q body) w)"
  shows "user_req cfg u r"
  using transcript_safe [OF requests_postWechat [OF assms(1,2)] assms(3)] .

theorem message_isolation_witness:
  "user_req demo_config demo_user
     (RedisSet (binding_key demo_user) (stringify (binding_val (initial_binding 1700000000000 1700000000000))) SetPlain)"
proof (rule message_isolation)
  show "readMessage demo_lib demo_config demo_query Undef = Inr (Inr demo_event)"
    by (simp add: readMessage_def parseWeChatXml_def demo_defs js_simps Let_def)
  show "get_prop demo_event ''FromUserName'' = Inr demo_user" by (simp add: demo_event_def js_simps)
  show "(RedisSet (binding_key demo_user) (stringify (binding_val (initial_binding 1700000000000 1700000000000))) SetPlain,
      GotBool True) \<in> set (transcript ref_service (postWechat demo_lib demo_config demo_query Undef) demo_world)"
    by (simp add: demo_subscribe demo_transcript)
qed

text \<open>C8. When the orchestrator answers with the information of a VM, the provisioning task ends without an exception with exactly that VM bound to the user (running, or still provisioning when the VM does not run yet), whatever the orchestrator has stored during the exchange and whatever becomes of the notification, and no other binding changed.\<close>

theorem provisioning_binds_vm:
  assumes "world_ok w" and "orch_ok cfg w"
    and "ks_answer w (create_request cfg u) = GotHttp \<lparr>rs_status = code, rs_data = v\<rparr>" and "is_vm_info v i"
  shows "let res = run ref_service (provisionVMAsync cfg n u) w in
    (\<forall>e. fst res \<noteq> Threw e) \<and> same_others u w (snd res) \<and>
    ks_binding (snd res) u = binding_val
      \<lparr>vmIp = StrV (vi_vm_ip i), webhookUrl = StrV (vi_webhook_url i),
       vb_status = (if vi_status i = Running then Running else Provisioning),
       createdAt = ks_clock w, lastActiveAt = ks_clock w, errorMessage = None, ssh_password = None\<rparr>"
proof -
  let ?res = "run ref_service (provisionVMAsync cfg n u) w"
  have running: "status_str (vi_status i) = js ''running'' \<longleftrightarrow> vi_status i = Running"
    using status_str_inj [of "vi_status i" Running] by simp
  note i = is_vm_infoD [OF assms(4)]
  show ?thesis
    using provision_success [OF assms(1-3), of n "fst ?res" "snd ?res"]
    unfolding Let_def vm_binding_of_def prod.collapse
    by (intro conjI allI) (simp_all add: i running)
qed

theorem provisioning_binds_vm_witness:
  "opt_prop (ks_binding (snd (run ref_service (provisionVMAsync demo_config 5 demo_user) vm_world)) demo_user) ''vmIp'' =
     str_val ''10.0.0.2''"
  using provisioning_binds_vm [of vm_world demo_config demo_user 200 demo_vm demo_info 5]
  by (simp add: Let_def vm_world_def ks_answer_def opt_prop_get [OF get_prop_binding_val(1)] demo_vm_info)
    (simp add: demo_info_def)

text \<open>C9. When the exchange with the orchestrator fails, the provisioning task swallows the exception and marks the binding that stands in Redis then, which may be one the orchestrator has stored during the exchange, with status error and the message of the exception, keeping every other field; where there is none it writes none; no other binding changes.\<close>

theorem provisioning_failure_recorded:
  assumes "world_ok w" and "orch_ok cfg w" and "\<not> answered (ks_answer w (create_request cfg u))"
  shows "let res = run ref_service (provisionVMAsync cfg n u) w; left = ks_binding (ks_next w (create_request cfg u)) u in
    (\<forall>e. fst res \<noteq> Threw e) \<and> same_others u w (snd res) \<and>
    (if truthy left
     then abs_state (ks_binding (snd res) u) = Has ErrorStatus
       \<and> opt_prop (ks_binding (snd res) u) ''errorMessage'' =
           StrV (err_message (fail_of (ks_answer w (create_request cfg u))))
       \<and> {k. opt_prop (ks_binding (snd res) u) k \<noteq> opt_prop left k} \<subseteq> {''status'', ''lastActiveAt'', ''errorMessage''}
     else ks_binding (snd res) u = left)"
proof -
  let ?w = "ks_next w (create_request cfg u)"
  have ok: "world_ok ?w" "orch_ok cfg ?w" "same_others u w ?w"
    using assms(1,2) by (simp_all add: world_ok_next same_others_next)
  note f = provision_failure [OF provision_steps_unanswered [OF assms(3)] ok(1,2), of n "fst (run ref_service (provisionVMAsync cfg n u) w)" "snd (run ref_service (provisionVMAsync cfg n u) w)"]
  have r: "recorded u e w1 w2 \<Longrightarrow> truthy (ks_binding w1 u) \<Longrightarrow>
      {k. opt_prop (ks_binding w2 u) k \<noteq> opt_prop (ks_binding w1 u) k} \<subseteq> {''status'', ''lastActiveAt'', ''errorMessage''}" for e w1 w2
    by (auto simp: recorded_def)
  show ?thesis
    using f r same_others_trans [OF ok(3)] unfolding Let_def prod.collapse
    by (intro conjI allI) (simp_all add: recorded_def)
qed

theorem provisioning_failure_recorded_witness:
  "let b = ks_binding (snd (run ref_service (provisionVMAsync demo_config 5 demo_user) failing_world)) demo_user
   in opt_prop b ''errorMessage'' = str_val ''connect ECONNREFUSED'' \<and> abs_state b = Has ErrorStatus"
  using provisioning_failure_recorded [OF failing_world_ok orch_failing, of demo_user 5]
  unfolding Let_def failing_left
  by (simp add: json_failed_entry ks_answer_def failing_world_def demo_world_def no_peer_def answered_def)

text \<open>C10. When the orchestrator restarts the VM, the restart task ends without an exception with the VM of the answer bound to the user as running, whatever the orchestrator has stored during the exchange, and no other binding changed.\<close>

theorem restart_binds_vm:
  assumes "world_ok w" and "orch_ok cfg w"
    and "ks_answer w (start_request cfg u) = GotHttp \<lparr>rs_status = code, rs_data = v\<rparr>" and "is_vm_info v i"
  shows "let res = run ref_service (restart_task cfg n u) w in
    (\<forall>e. fst res \<noteq> Threw e) \<and> same_others u w (snd res) \<and>
    ks_binding (snd res) u = binding_val
      \<lparr>vmIp = StrV (vi_vm_ip i), webhookUrl = StrV (vi_webhook_url i), vb_status = Running,
       createdAt = ks_clock w, lastActiveAt = ks_clock w, errorMessage = None, ssh_password = None\<rparr>"
proof -
  let ?res = "run ref_service (restart_task cfg n u) w"
  note i = is_vm_infoD [OF assms(4)]
  show ?thesis
    using restart_success [OF assms(1-3), of n "fst ?res" "snd ?res"]
    unfolding Let_def vm_binding_of_def prod.collapse
    by (intro conjI allI) (simp_all add: i)
qed

theorem restart_binds_vm_witness:
  "abs_state (ks_binding (snd (run ref_service (restart_task demo_config 5 demo_user) vm_world)) demo_user) = Has Running"
  using restart_binds_vm [of vm_world demo_config demo_user 200 demo_vm demo_info 5]
  by (simp add: Let_def vm_world_def ks_answer_def demo_vm_info)

text \<open>C11. The stop command makes one request to the orchestrator; when it is answered the binding that the exchange has left, if any, is marked stopped and the user told so, otherwise the state stays as the exchange has left it and the user is told of the failure. No binding of another user (with an id that is not empty) changes.\<close>

theorem stop_command_outcome:
  assumes "world_ok w" and "orch_ok cfg w"
  shows "let stopped = answered (ks_answer w (stop_request cfg u)); left = ks_binding (ks_next w (stop_request cfg u)) u in
    case run ref_service (handleStopCommand lib cfg (sendReply cfg False) u v) w of
      (Returned r, w') \<Rightarrow> r = plain_answer lib u v (ks_clock w) (if stopped then STOPPED_TEXT else STOP_FAILED_TEXT)
        \<and> abs_state (ks_binding w' u) =
            (if stopped \<and> truthy left then Has Stopped else abs_state left)
        \<and> ks_tasks w' = ks_tasks w @ [] \<and> ks_sent w' = ks_sent w @ [stop_request cfg u]
        \<and> world_ok w' \<and> same_users u w w'
    | _ \<Rightarrow> False"
  using outcome_Stop [OF assms, of lib u v] unfolding outcome_of_def Let_def .

theorem stop_command_outcome_witness:
  "ks_sent (snd (run ref_service (handleStopCommand demo_lib demo_config (sendReply demo_config False) demo_user demo_user)
     demo_world)) = [stop_request demo_config demo_user]"
  using stop_command_outcome [where w = demo_world and u = demo_user and v = demo_user and lib = demo_lib
      and cfg = demo_config]
  by (auto simp: Let_def demo_world_def split: prod.splits outcome.splits)

text \<open>C12. The destroy command makes one request to the orchestrator. Exactly when it is answered, the bridge deletes the binding and tells the user so; when it is not, the bridge leaves the store as the exchange has left it, untouched, and tells the user of the failure. The bindings of other users (with an id that is not empty) never change.\<close>

theorem destroy_command_outcome:
  assumes "world_ok w" and "orch_ok cfg w"
  shows "let q = destroy_request cfg u; left = ks_next w q; destroyed = answered (ks_answer w q);
      w' = (if destroyed then left\<lparr>ks_map := (ks_map left)(binding_key u := None)\<rparr> else left) in
    run ref_service (handleDestroyCommand lib cfg (sendReply cfg False) u v) w =
      (Returned (plain_answer lib u v (ks_clock w) (if destroyed then DESTROYED_TEXT else DESTROY_FAILED_TEXT)), w')
    \<and> ks_sent w' = ks_sent w @ [q] \<and> (destroyed \<longrightarrow> ks_binding w' u = Null) \<and> world_ok w' \<and> same_users u w w'"
  using exchange_frame(1,2) [OF assms, where lib = lib and u = u and v = v]
  by (auto simp: run_handleDestroyCommand Let_def ks_binding_unbind simp flip: ks_unbind_def)

theorem destroy_command_outcome_witness:
  "ks_binding (snd (run ref_service (handleDestroyCommand demo_lib demo_config (sendReply demo_config False)
     demo_user demo_user) vm_world)) demo_user = Null"
  using destroy_command_outcome [where w = vm_world and u = demo_user and v = demo_user and lib = demo_lib
      and cfg = demo_config]
  by (simp add: Let_def) (simp add: vm_world_def ks_answer_def answered_def)

text \<open>C13. The status and password commands write nothing themselves. The first reports the stored status, address and creation date, or that there is no VM. A password of fewer than eight UTF-16 units is refused without a request; a longer one is sent to the orchestrator once, the reply says whether it was taken, and the store is as the exchange has left it. No binding of another user (with an id that is not empty) changes.\<close>

theorem query_commands_outcome:
  assumes "world_ok w" and "orch_ok cfg w"
  shows "run ref_service (handleStatusCommand lib cfg (sendReply cfg False) u v) w =
      (Returned (plain_answer lib u v (ks_clock w)
         (if truthy (ks_binding w u)
          then STATUS_TEXT cfg u (opt_prop (ks_binding w u) ''status'') (opt_prop (ks_binding w u) ''vmIp'')
                 (lib_date lib (opt_prop (ks_binding w u) ''createdAt''))
          else NO_VM_TEXT)), w)
    \<and> (let short = length pw < 8; q = passwd_request cfg u pw; taken = answered (ks_answer w q);
          w' = (if short then w else ks_next w q) in
       run ref_service (handlePasswdCommand lib cfg (sendReply cfg False) u v pw) w =
         (Returned (plain_answer lib u v (ks_clock w)
            (if short then PASSWD_SHORT_TEXT else if taken then PASSWD_OK_TEXT else PASSWD_FAILED_TEXT)), w')
       \<and> ks_tasks w' = ks_tasks w \<and> ks_sent w' = ks_sent w @ (if short then [] else [q])
       \<and> world_ok w' \<and> same_users u w w')"
  using exchange_frame(3,4) [OF assms, where lib = lib and u = u and v = v and pw = pw] run_handleStatusCommand [of lib cfg u v w]
  by (simp add: run_handlePasswdCommand Let_def split: if_splits)

theorem query_commands_outcome_witness:
  "ks_sent (snd (run ref_service (handlePasswdCommand demo_lib demo_config (sendReply demo_config False) demo_user demo_user
     (js ''1234567'')) demo_world)) = []"
  using query_commands_outcome [where w = demo_world and u = demo_user and v = demo_user and lib = demo_lib
      and cfg = demo_config and pw = "js ''1234567''"]
  by (simp add: Let_def) (simp add: demo_world_def)
text \<open>C14. The provisioning task is not covered against a failing Redis: when its request to the orchestrator fails, its catch block goes on to read the binding of the user; when that command fails too, the exception leaves the task, and as nobody awaits it, it ends the process, whatever else is running.\<close>

theorem provisioning_can_end_process:
  "\<exists>k k'. provisionVMAsync cfg n u = Perform (Http (create_request cfg u)) k
    \<and> k (Failed e) = Perform (RedisGet (binding_key u)) k' \<and> k' (Failed e') = Throw e'
    \<and> (let state = (\<lambda>m crashed. \<lparr>sys_keys = keys, sys_pool = pre @ m # post, sys_crashed = crashed\<rparr>) in
       step lib env cfg n True (state (provisionVMAsync cfg n u) False) (state (k (Failed e)) False)
       \<and> step lib env cfg n True (state (k (Failed e)) False) (state (k' (Failed e')) False)
       \<and> step lib env cfg n True (state (k' (Failed e')) False) (state (k' (Failed e')) True))"
proof -
  obtain k k' where "provisionVMAsync cfg n u = Perform (Http (create_request cfg u)) k"
    and "k (Failed e) = Perform (RedisGet (binding_key u)) k'" and "k' (Failed e') = Throw e'"
    and "step lib env cfg n True \<lparr>sys_keys = keys, sys_pool = pre @ provisionVMAsync cfg n u # post, sys_crashed = False\<rparr>
      \<lparr>sys_keys = keys, sys_pool = pre @ k (Failed e) # post, sys_crashed = False\<rparr>"
    and "step lib env cfg n True \<lparr>sys_keys = keys, sys_pool = pre @ k (Failed e) # post, sys_crashed = False\<rparr>
      \<lparr>sys_keys = keys, sys_pool = pre @ Throw e' # post, sys_crashed = False\<rparr>"
    and "step lib env cfg n True \<lparr>sys_keys = keys, sys_pool = pre @ Throw e' # post, sys_crashed = False\<rparr>
      \<lparr>sys_keys = keys, sys_pool = pre @ Throw e' # post, sys_crashed = True\<rparr>"
    by (rule provision_crash [of cfg n u e e' lib env True keys pre post])
  then show ?thesis by (intro exI [of _ k] exI [of _ k']) (simp add: Let_def)
qed

text \<open>C15. A destroy command handled while the VM is being provisioned does not last: in the schedule where the command ends first, its binding is deleted and then written again, as running, by the provisioning task.\<close>

theorem destroy_during_provisioning:
  assumes "\<bar>t\<bar> < 10 ^ 21" "json_ok ip" "json_ok url"
  shows "\<exists>rest. (step lib env cfg n False)\<^sup>*\<^sup>*
      \<lparr>sys_keys = keys, sys_pool = [provisionVMAsync cfg n u, destroy_handler lib cfg u v], sys_crashed = False\<rparr>
      \<lparr>sys_keys = keys(binding_key u := None), sys_pool = [provisionVMAsync cfg n u, Return ()], sys_crashed = False\<rparr>
    \<and> (step lib env cfg n False)\<^sup>*\<^sup>*
      \<lparr>sys_keys = keys(binding_key u := None), sys_pool = [provisionVMAsync cfg n u, Return ()], sys_crashed = False\<rparr>
      \<lparr>sys_keys = keys(binding_key u \<mapsto> stringify (binding_val (vm_binding_of ip url Running t t))),
       sys_pool = [rest, Return ()], sys_crashed = False\<rparr>"
  using destroy_schedule [OF assms(1), of lib env cfg n False keys "[provisionVMAsync cfg n u]" u v "[]"]
    provision_schedule [OF assms, of lib env cfg n False "keys(binding_key u := None)" "[]" u "[Return ()]"]
  by simp

theorem destroy_during_provisioning_witness:
  "\<exists>s. (step demo_lib (\<lambda>_. None) demo_config 5 False)\<^sup>*\<^sup>*
      \<lparr>sys_keys = (\<lambda>_. None), sys_pool = [provisionVMAsync demo_config 5 demo_user,
         destroy_handler demo_lib demo_config demo_user demo_user], sys_crashed = False\<rparr> s
    \<and> sys_keys s (binding_key demo_user) \<noteq> None"
  using destroy_during_provisioning [of 0 "str_val ''10.0.0.2''" "str_val ''http://10.0.0.2''" demo_lib "\<lambda>_. None" demo_config 5
      "\<lambda>_. None" demo_user demo_user]
  by (auto dest: rtranclp_trans)

text \<open>C16. In encrypted mode a reply is the envelope of a ciphertext that decrypts to the plain reply, signed with the digest of the token and the time, nonce and ciphertext it carries.\<close>

theorem encrypted_reply_readable:
  assumes "wc_encodingAESKey (cf_wechat cfg) = Some key" "key \<noteq> []" "length (decodeAESKey key) = 32"
    and "well_formed xml" "length (utf8_encode xml) < 2 ^ 32" "well_formed (wc_appId (cf_wechat cfg))"
    and "fst (sv w (RandomBytes 16)) = GotBytes rnd" "length rnd = 16"
    and "fst (run sv (sendReply cfg True xml) w) = Returned r"
  shows "\<exists>c s ts n. r = typed_reply ''text/xml'' (buildEncryptedReply c s ts n)
    \<and> s = sha1_hex (concat (sort [wc_token (cf_wechat cfg), ts, n, c]))
    \<and> decryptMessage (StrV c) key (wc_appId (cf_wechat cfg)) = Inr xml"
proof -
  have "run sv (sendReply cfg True xml) w = (Returned r, snd (run sv (sendReply cfg True xml) w))"
    using assms(9) by (metis prod.collapse)
  then obtain c s ts n where r: "r = typed_reply ''text/xml'' (buildEncryptedReply c s ts n)"
      "validateMsgSignature (wc_token (cf_wechat cfg)) ts n (StrV c) s"
      "decryptMessage (StrV c) key (wc_appId (cf_wechat cfg)) = Inr xml"
    by (rule sendReply_encrypted [where sv = sv and w = w, OF assms(1-8)])
  moreover from r(2) have "s = sha1_hex (concat (sort [wc_token (cf_wechat cfg), ts, n, c]))"
    by (simp only: validateMsgSignature_generate generateMsgSignature_def Let_def join_Nil_concat to_str.simps)
  ultimately show ?thesis by blast
qed

theorem encrypted_reply_readable_witness:
  "\<exists>r c s ts n. fst (run ref_service (sendReply demo_enc_config True (js ''<xml>ok</xml>'')) demo_world) = Returned r
    \<and> r = typed_reply ''text/xml'' (buildEncryptedReply c s ts n)
    \<and> decryptMessage (StrV c) (replicate 43 65) (js ''wx01'') = Inr (js ''<xml>ok</xml>'')"
proof -
  let ?xml = "js ''<xml>ok</xml>''"
  obtain c where c: "encrypt_with (replicate 16 0) ?xml (replicate 43 65) (js ''wx01'') = Inr c"
    by (rule decrypt_encrypt_with [of "replicate 43 65" "replicate 16 0" ?xml "js ''wx01''"])
      (auto simp: js_ascii utf8_js_length)
  then obtain r where r: "fst (run ref_service (sendReply demo_enc_config True ?xml) demo_world) = Returned r"
    by (simp add: sendReply_def demo_enc_defs given_def text_of_def encryptMessage_def act_simps Let_def)
  from encrypted_reply_readable [of demo_enc_config "replicate 43 65" ?xml ref_service demo_world "replicate 16 0" r] r
  show ?thesis by (simp add: demo_enc_defs js_ascii utf8_js_length) blast
qed

text \<open>C17. sendTextMessage reports success exactly when the messages WeChat has accepted are the numbered pieces of the text, in order and each once; otherwise they are only some of them, in order.\<close>

theorem text_message_delivery:
  assumes "fst (run sv (sendTextMessage cfg n u (StrV s)) w) = Returned ok"
  shows "let got = accepted (transcript sv (sendTextMessage cfg n u (StrV s)) w);
             want = map (\<lambda>t. text_message u (StrV t)) (message_texts s)
         in (ok \<longleftrightarrow> got = want) \<and> subseq got want"
  using sendTextMessage_accepted [of sv cfg n u s w ok "snd (run sv (sendTextMessage cfg n u (StrV s)) w)"] assms
  by (simp add: Let_def prod_eq_iff)

theorem text_message_delivery_witness:
  "accepted (transcript ref_service (sendTextMessage demo_config 5 demo_user (str_val ''hi'')) sending_world) =
     [text_message demo_user (str_val ''hi'')]"
  using text_message_delivery [OF sending_returns] by (simp add: Let_def message_texts_def)

text \<open>C18. Sending one message makes at most two posts, each of that message to the customer-service API; without retry at most one; the second is made only when the first was answered with errcode 40001, an invalid token; and sending never rejects.\<close>

theorem send_bounded_and_total:
  "let ps = filter (\<lambda>(r, x). is_post r) (transcript sv (sendCustomerServiceMessage cfg n m retry) w) in
     length ps \<le> (if retry then 2 else 1)
     \<and> list_all (\<lambda>(r, x). \<exists>tok. r = Http (send_request tok m)) ps
     \<and> (length ps = 2 \<longrightarrow> (\<exists>s. snd (hd ps) = GotHttp s \<and> get_prop (rs_data s) ''errcode'' = Inr (int_val 40001)))
     \<and> (\<forall>e. fst (run sv (sendCustomerServiceMessage cfg n m retry) w) \<noteq> Threw e)"
  using posts_of_send [OF refl, where sv = sv and cfg = cfg and n = n and m = m and retry = retry and w = w]
    run_safe [OF no_throw_sendCustomerServiceMessage, of sv cfg n m retry w]
  unfolding Let_def posts_of_def token_error_def by (auto split: outcome.splits)

theorem send_bounded_and_total_witness:
  "list_all (\<lambda>(r, x). \<exists>tok. r = Http (send_request tok (text_message demo_user (str_val ''hi'')))) (filter (\<lambda>(r, x). is_post r)
     (transcript ref_service (sendCustomerServiceMessage demo_config 5 (text_message demo_user (str_val ''hi'')) True) sending_world))"
  using send_bounded_and_total [where sv = ref_service and cfg = demo_config and n = 5
      and m = "text_message demo_user (str_val ''hi'')" and retry = True and w = sending_world]
  by (simp only: Let_def)

text \<open>C19. Cutting a text loses nothing but white space at the cuts: the text is the pieces, in order, with runs of white space between them, and each piece is non-empty and at most 600 units long.\<close>

theorem chunks_cover_text:
  assumes "s \<noteq> []"
  shows "(\<exists>gaps. list_all (list_all is_ws) gaps \<and> s = with_gaps (split_chunks s) gaps)
    \<and> (\<forall>c \<in> set (split_chunks s). c \<noteq> [] \<and> length c \<le> 600) \<and> length (split_chunks s) \<le> length s div 300 + 1"
  using split_chunks_gaps [OF assms] split_chunks_bounds split_chunks_number by blast

theorem chunks_cover_text_witness:
  "\<exists>gaps. list_all (list_all is_ws) gaps \<and> js ''hello'' = with_gaps (split_chunks (js ''hello'')) gaps"
  using chunks_cover_text [of "js ''hello''"] by simp

text \<open>C20. The messages sent are at most 600 units plus the number prefix, and the limit of 600 is exceeded: a text of 1200 letters without a break gives a second message of 606 units.\<close>

theorem message_length_bound:
  "(\<forall>t \<in> set (message_texts s). length t \<le> MAX_LENGTH + 4 + 2 * length (nat_digits (length (split_chunks s))))
   \<and> map length (message_texts (replicate 1200 97)) = [600, 606]"
proof
  show "\<forall>t \<in> set (message_texts s). length t \<le> MAX_LENGTH + 4 + 2 * length (nat_digits (length (split_chunks s)))"
    using message_texts_length [of _ s] by (simp add: MAX_LENGTH_def)
  have "split_chunks (replicate (600 + 600) 97) = [replicate 600 97, replicate 600 97]"
    by (rule split_chunks_solid) (simp_all add: is_ws_def ws_units_def)
  then show "map length (message_texts (replicate 1200 97)) = [600, 606]"
    by (simp add: message_texts_def numbered_def nat_digits.simps)
qed

theorem message_length_bound_witness:
  "\<exists>t. t \<in> set (message_texts (js ''hello'')) \<and>
     length t \<le> MAX_LENGTH + 4 + 2 * length (nat_digits (length (split_chunks (js ''hello''))))"
proof -
  have "js ''hello'' \<in> set (message_texts (js ''hello''))" by (simp add: message_texts_def MAX_LENGTH_def)
  with message_length_bound [of "js ''hello''"] show ?thesis by blast
qed

text \<open>C21. A cached token is used, without touching WeChat, exactly while the clock is more than ten minutes before its expiry; otherwise the token is refreshed. This holds for any Redis service that keeps the laws of the interface.\<close>

theorem cached_token_used:
  assumes "redis_service sv keys" and "keys w TOKEN_KEY = Some (stringify (token_entry tok e))"
    and "json_ok tok" and "\<bar>e\<bar> < 10 ^ 21" and "\<not> failed (fst (sv w (RedisGet TOKEN_KEY)))"
    and "fst (sv (snd (sv w (RedisGet TOKEN_KEY))) DateNow) = GotNum t"
  shows "run sv (getAccessToken cfg n) w =
    (let w' = snd (sv (snd (sv w (RedisGet TOKEN_KEY))) DateNow)
     in if t div 1000 < e - 600 then (Returned tok, w') else run sv (refreshAccessToken cfg n) w')"
  using redis_service.run_get_token_with [OF assms]
  by (simp add: getAccessToken_eq Let_def TOKEN_REFRESH_THRESHOLD_def)

theorem cached_token_used_witness:
  "fst (run ref_service (getAccessToken demo_config 5) token_world) = Returned (str_val ''tok'')"
  using cached_token_used [OF ref_redis_service, of token_world "str_val ''tok''" 2000000000 1700000000000 demo_config 5]
  by (simp add: token_world_def ks_live_store token_world_simps Let_def)

text \<open>C22. However many processes share Redis and whatever fails: at most one call at a time asks WeChat for a token, as long as no call takes 30 seconds between getting the lock and asking for its release; the key of the lock never has more than 30 seconds to live; and when no Redis command fails, the key is gone once the calls have ended. When the bound of 30 seconds is not met, two calls can ask at once.\<close>

theorem token_requests_exclusive:
  assumes "contended lib env cfg n guarded faults w pool"
  shows "(guarded \<longrightarrow> length (filter (asks_token cfg) pool) \<le> 1)
    \<and> (case ks_map w TOKEN_LOCK_KEY of None \<Rightarrow> True | Some (v, None) \<Rightarrow> False | Some (v, Some t) \<Rightarrow> t \<le> ks_clock w + 30000)
    \<and> (\<not> faults \<and> list_all (\<lambda>(m, t). ended m) pool \<longrightarrow> ks_live w TOKEN_LOCK_KEY = None)
    \<and> (\<exists>w' pool'. contended lib env cfg n False False w' pool' \<and> 2 \<le> length (filter (asks_token cfg) pool'))"
proof (intro conjI impI)
  show "guarded \<Longrightarrow> length (filter (asks_token cfg) pool) \<le> 1" using one_asks [of lib env cfg n faults w pool] assms by simp
  show "case ks_map w TOKEN_LOCK_KEY of None \<Rightarrow> True | Some (v, None) \<Rightarrow> False | Some (v, Some t) \<Rightarrow> t \<le> ks_clock w + 30000"
    using lock_key(2) [OF assms] by (fastforce simp: lock_time_def split: option.split)
  show "ks_live w TOKEN_LOCK_KEY = None" if "\<not> faults \<and> list_all (\<lambda>(m, t). ended m) pool"
    using lock_key(1) [OF assms] that by (fastforce simp: list_all_iff)
  show "\<exists>w' pool'. contended lib env cfg n False False w' pool' \<and> 2 \<le> length (filter (asks_token cfg) pool')"
    by (rule lock_runs_out)
qed

theorem token_requests_exclusive_witness:
  "\<exists>w pool. contended demo_lib (\<lambda>_. None) demo_config 5 True True w pool \<and> length (filter (asks_token demo_config) pool) = 1"
proof -
  obtain w c where c: "contended demo_lib (\<lambda>_. None) demo_config 5 True True w ([] @ [c])" "asks_token demo_config c"
    by (rule contended_asks [OF contended.start [of demo_world demo_lib "\<lambda>_. None" demo_config 5 True True]])
      (simp_all add: demo_world_def)
  from token_requests_exclusive [OF c(1)] c(2) have "length (filter (asks_token demo_config) ([] @ [c])) = 1" by simp
  with c(1) show ?thesis by blast
qed

text \<open>C23. The retry loop of the token ends: with one round of fuel for each second that the lock of another process has left to live, getAccessToken returns or throws.\<close>

theorem token_loop_ends:
  assumes "redis_lock sv keys TOKEN_LOCK_KEY remaining timed" and "timed w" and "remaining w \<le> 1000 * n"
  shows "fst (run sv (getAccessToken cfg n) w) \<noteq> Exhausted"
  by (rule redis_lock.enough_fuel [OF assms(1) refl assms(2,3)])

theorem token_loop_ends_witness:
  "fst (run ref_service (getAccessToken demo_config 30) (ks_store demo_world TOKEN_LOCK_KEY (js ''1'') (Some 30))) \<noteq> Exhausted"
  using token_loop_ends [OF ref_redis_lock, of "ks_store demo_world TOKEN_LOCK_KEY (js ''1'') (Some 30)" 30 demo_config]
  by (simp add: ks_timed_def ks_remaining_def ks_store_def demo_world_def)

text \<open>C24. When the agent posts a result or an error, the user receives the numbered pieces of its text (a default text when it is empty, and the thinking time appended, if given), in order; the agent is told ok exactly when WeChat has accepted all of them, and gets a 500 otherwise.\<close>

theorem callback_delivers_result:
  assumes "fst (run sv (postCallback cfg n u (callback_val p)) w) = Returned r"
  shows "let got = accepted (transcript sv (postCallback cfg n u (callback_val p)) w);
      want = map (\<lambda>t. text_message (StrV u) (StrV t)) (message_texts (callback_text p))
    in r = (if got = want then callback_sent else callback_not_sent) \<and> subseq got want"
  by (rule postCallback_delivers [OF callback_val_fields callback_content_typed,
        where w' = "snd (run sv (postCallback cfg n u (callback_val p)) w)"])
    (use assms in \<open>simp add: prod_eq_iff\<close>)

theorem callback_delivers_result_witness:
  "accepted (transcript ref_service (postCallback demo_config 5 (js ''u1'') (callback_val demo_result)) sending_world) =
     [text_message demo_user (str_val ''hi'')]"
proof -
  let ?m = "postCallback demo_config 5 (js ''u1'') (callback_val demo_result)"
  have content: "callback_text demo_result = js ''hi''"
    by (simp add: callback_text_def demo_result_def str_or_def thinking_note_def)
  have "fst (run ref_service ?m sending_world) = Returned callback_sent"
    using sending_returns callback_val_fields [of demo_result] callback_content_typed [of demo_result]
    by (auto simp: postCallback_def act_simps demo_user_def content split: prod.splits outcome.splits)
  from callback_delivers_result [OF this] show ?thesis
    by (simp add: Let_def message_texts_def demo_user_def content callback_sent_def callback_not_sent_def json_reply_def
        split: if_splits)
qed

text \<open>C25. A callback for a user reads his binding and sends messages to him; it writes no binding, starts no task and addresses nobody else.\<close>

theorem callback_isolation:
  assumes "(r, x) \<in> set (transcript sv (postCallback cfg n u body) w) \<or>
    (r, x) \<in> set (transcript sv (postCallbackStream cfg n u body) w)"
  shows "r = RedisGet (binding_key (StrV u)) \<or> message_req cfg (\<lambda>m. get_prop m ''touser'' = Inr (StrV u)) r"
  using assms transcript_safe [OF requests_postCallback, of r x sv cfg n u body w]
    transcript_safe [OF requests_postCallbackStream, of r x sv cfg n u body w]
  by (auto simp: callback_req_def to_user_def [abs_def])

theorem callback_isolation_witness:
  "RedisGet (binding_key demo_user) = RedisGet (binding_key (str_val ''u1''))
   \<or> message_req demo_config (\<lambda>m. get_prop m ''touser'' = Inr (str_val ''u1'')) (RedisGet (binding_key demo_user))"
proof -
  have "(RedisGet (binding_key demo_user), GotStr (ks_live sending_world (binding_key demo_user)))
      \<in> set (transcript ref_service (postCallback demo_config 5 (js ''u1'') (delivery_body (str_val ''hi''))) sending_world)"
    by (simp add: postCallback_def delivery_body_def js_simps getVMBinding_def redis_get_def demo_user_def)
  from callback_isolation [OF disjI1, OF this] show ?thesis .
qed

text \<open>C26. The background tasks of a user touch nothing of another: provisioning and restart use only his binding, the orchestrator requests about him, the token cache and messages to him; forwarding makes only a POST to the webhook of the binding it was given, with a payload that names the sender of the message.\<close>

theorem task_isolation:
  "list_all (\<lambda>(r, x). user_req cfg u r \<or> message_req cfg (\<lambda>m. get_prop m ''touser'' = Inr u) r)
      (transcript sv (provisionVMAsync cfg n u) w @ transcript sv (restart_task cfg n u) w)
   \<and> list_all (\<lambda>(r, x). \<exists>q url task. r = Http q \<and> rq_method q = POST \<and> get_prop b ''webhookUrl'' = Inr url
        \<and> rq_url q = to_str url \<and> rq_body q = Some (webhook_payload cfg m task))
      (transcript sv (forward_task cfg m b) w)"
proof
  show "list_all (\<lambda>(r, x). user_req cfg u r \<or> message_req cfg (\<lambda>m. get_prop m ''touser'' = Inr u) r)
      (transcript sv (provisionVMAsync cfg n u) w @ transcript sv (restart_task cfg n u) w)"
    using transcript_safe [OF requests_provisionVMAsync, of _ _ sv cfg n u w]
      transcript_safe [OF requests_restart_task, of _ _ sv cfg n u w]
    by (fastforce simp: list_all_iff task_req_def to_user_def [abs_def])
  show "list_all (\<lambda>(r, x). \<exists>q url task. r = Http q \<and> rq_method q = POST \<and> get_prop b ''webhookUrl'' = Inr url
        \<and> rq_url q = to_str url \<and> rq_body q = Some (webhook_payload cfg m task))
      (transcript sv (forward_task cfg m b) w)"
    by (cases "task_content m"; cases "get_prop b ''webhookUrl''")
      (auto simp: forward_task_def doForward_def act_simps http_def split: resp.split)
qed

text \<open>C27. Forwarding a message makes exactly one request, a POST to the webhook of the binding whose payload names the sender, the callback address and the task its type stands for, and a failure stays inside the task.\<close>

theorem forwarding_posts_once:
  assumes "get_prop b ''webhookUrl'' = Inr url"
  shows "\<exists>q r. transcript sv (forward_task cfg (message_val m) b) w = [(Http q, r)]
    \<and> rq_url q = to_str url \<and> rq_method q = POST \<and> rq_body q = Some (payload_val (payload_of cfg m))
    \<and> (\<forall>e. fst (run sv (forward_task cfg (message_val m) b) w) \<noteq> Threw e)"
proof -
  have quiet: "\<forall>e. fst (run sv (forward_task cfg (message_val m) b) w) \<noteq> Threw e"
    using run_safe [OF no_throw_forward_task, of sv cfg "message_val m" b w] by (auto split: outcome.splits)
  have "message_val m \<noteq> Undef" "message_val m \<noteq> Null" by (simp_all add: message_val_def obj_def)
  from transcript_forward_task [OF this assms, of sv cfg w] obtain q t r where
    "task_content (message_val m) = Inr t" "transcript sv (forward_task cfg (message_val m) b) w = [(Http q, r)]"
    "rq_url q = to_str url" "rq_method q = POST" "rq_body q = Some (webhook_payload cfg (message_val m) t)" by blast
  with quiet show ?thesis by (auto simp: webhook_payload_typed)
qed

theorem forwarding_posts_once_witness:
  "\<exists>q r. transcript ref_service (forward_task demo_config (message_val demo_message) (binding_val (initial_binding 0 0))) demo_world =
     [(Http q, r)] \<and> rq_method q = POST"
proof -
  have "get_prop (binding_val (initial_binding 0 0)) ''webhookUrl'' = Inr (StrV [])"
    by (simp add: get_prop_binding_val initial_binding_def vm_binding_of_def)
  from forwarding_posts_once [OF this, of ref_service demo_config demo_message demo_world] show ?thesis by blast
qed

text \<open>C28. The plugin accepts what the bridge forwards: the payload of a message with a task, sent as JSON in UTF-8 and received in any pieces, is answered with 202 and then starts the pipeline on exactly that payload.\<close>

theorem webhook_accepts_forwarded:
  assumes "wm_MsgId m \<noteq> None" "\<bar>wm_CreateTime m\<bar> < 10 ^ 21" "task_text_of (wm_MsgType m) m \<noteq> []" "webhook_path url"
    and "concat pieces = utf8_encode (stringify (payload_val (payload_of cfg m)))"
  shows "\<exists>a. an_status a = 202 \<and> handleWebhookRequest (js ''POST'') url (Inr pieces) =
     (True, [Answer a, StartPipeline (payload_val (payload_of cfg m))])"
proof -
  let ?t = "StrV (task_text_of (wm_MsgType m) m)"
  have "forwardable (message_val m)"
    using assms(1,2) by (auto simp: forwardable_def message_opt_props opt_str_def)
  moreover have "webhook_payload cfg (message_val m) ?t = payload_val (payload_of cfg m)"
    by (rule webhook_payload_typed [OF task_content_typed])
  ultimately show ?thesis
    using webhook_accepts_forward [OF _ task_content_typed _ _ assms(4), of m pieces cfg] assms(3,5) by simp
qed

theorem webhook_accepts_forwarded_witness:
  "\<exists>a. an_status a = 202 \<and> handleWebhookRequest (js ''POST'') (Some (js ''/webhook''))
       (Inr [utf8_encode (stringify (payload_val (payload_of demo_config demo_message)))]) =
     (True, [Answer a, StartPipeline (payload_val (payload_of demo_config demo_message))])"
  by (rule webhook_accepts_forwarded) (simp_all add: webhook_path_def ends_with_def demo_message_def str_or_def)

text \<open>C29. A text the agent produces for a forwarded message is posted once, to the callback address of the sender, and the JSON posted is read by the callback endpoint as that text.\<close>

theorem reply_returns_to_sender:
  assumes "opt_prop m ''FromUserName'' = StrV u" "get_prop dp ''text'' = Inr (StrV t)" "t \<noteq> []"
  shows "\<exists>q r b. transcript sv (deliver_callback st (opt_prop (webhook_payload cfg m task) ''callback_url'') dp) w = [(Http q, r)]
    \<and> rq_method q = POST \<and> rq_url q = br_baseUrl (cf_bridge cfg) @ js ''/callback/'' @ u
    \<and> json_parse (stringify b) = Inr b \<and> rq_body q = Some b
    \<and> (\<exists>s res e md. get_prop b ''success'' = Inr s \<and> get_prop b ''result'' = Inr res \<and> get_prop b ''error'' = Inr e
         \<and> get_prop b ''metadata'' = Inr md \<and> callback_content s res e md = StrV t)"
proof -
  obtain q r where q: "transcript sv (deliver_callback st (opt_prop (webhook_payload cfg m task) ''callback_url'') dp) w = [(Http q, r)]"
      "rq_url q = br_baseUrl (cf_bridge cfg) @ js ''/callback/'' @ u" "rq_method q = POST"
      "rq_body q = Some (delivery_body (StrV t))"
    by (rule reply_reaches_callback [OF assms, of sv st cfg task w])
  moreover have "json_parse (stringify (delivery_body (StrV t))) = Inr (delivery_body (StrV t))"
    by (rule json_parse_stringify) (rule json_ok_delivery_body, simp)
  ultimately show ?thesis using delivery_read_back [OF assms(3)] by blast
qed

theorem reply_returns_to_sender_witness:
  "\<exists>q r. transcript ref_service (deliver_callback \<lparr>runtime = None, globalConfig = Null\<rparr>
       (opt_prop (webhook_payload demo_config demo_text (str_val ''hello'')) ''callback_url'')
       (obj [(''text'', str_val ''hi'')])) demo_world = [(Http q, r)] \<and> rq_url q = js ''http://bridge/callback/u1''"
proof -
  have u: "opt_prop demo_text ''FromUserName'' = StrV (js ''u1'')"
    by (simp add: demo_text_def opt_prop_obj js_simps demo_user_def)
  have t: "get_prop (obj [(''text'', str_val ''hi'')]) ''text'' = Inr (StrV (js ''hi''))" by (simp add: js_simps)
  have url: "br_baseUrl (cf_bridge demo_config) @ js ''/callback/'' @ js ''u1'' = js ''http://bridge/callback/u1''"
    by (simp add: demo_config_def flip: js_append)
  from reply_returns_to_sender [OF u t, of ref_service _ demo_config "str_val ''hello''" demo_world] url
  show ?thesis by fastforce
qed

text \<open>C30. The webhook takes exactly the POSTs without a URL, to / or to a path that ends in /webhook, and leaves every other request to the server. A JSON body v, in UTF-8 and in any pieces, is answered with 500 when it is null, with 400 when it has no task (as an empty body has none), and otherwise with 202 at once, after which the pipeline is started on v; a broken stream or a text that is no JSON is answered with 500.\<close>

theorem webhook_answers:
  assumes "concat pieces = utf8_encode (stringify v)" and "json_ok v"
    and "concat broken = utf8_encode text" "well_formed text" "text \<noteq> []" "\<nexists>x. json_parse text = Inr x"
  shows "let taken = (meth = js ''POST'' \<and> (url \<in> {None, Some [], Some (js ''/'')} \<or> (\<exists>path. url = Some (path @ js ''/webhook''))));
      answers = (\<lambda>incoming. map (\<lambda>e. case e of Answer a \<Rightarrow> Inl (an_status a) | StartPipeline p \<Rightarrow> Inr p)
        (snd (handleWebhookRequest meth url incoming))) in
    fst (handleWebhookRequest meth url incoming) = taken
    \<and> answers (Inr pieces) = (if \<not> taken then [] else if v = Null then [Inl 500]
         else if truthy (opt_prop v ''task'') then [Inl 202, Inr v] else [Inl 400])
    \<and> answers (Inr []) = (if taken then [Inl 400] else [])
    \<and> answers (Inr broken) = (if taken then [Inl 500] else [])
    \<and> answers (Inl e) = (if taken then [Inl 500] else [])"
proof -
  have path: "webhook_path url \<longleftrightarrow> url \<in> {None, Some [], Some (js ''/'')} \<or> (\<exists>path. url = Some (path @ js ''/webhook''))"
    by (auto simp: webhook_path_def ends_with_iff split: option.splits)
  have v: "readJsonBody (Inr pieces) = Inr v" "v \<noteq> Undef"
    using readJsonBody_wire [OF assms(1,2)] assms(2) by auto
  have empty: "readJsonBody (Inr []) = Inr (obj [])" by (simp add: readJsonBody_def utf8_decode_def)
  obtain e' where broken: "readJsonBody (Inr broken) = Inl e'"
    using assms(3-6) by (cases "json_parse text") (auto simp: readJsonBody_def utf8_roundtrip)
  have stream: "readJsonBody (Inl e) = Inl e" by (simp add: readJsonBody_def)
  have taken: "fst (handleWebhookRequest (js ''POST'') url incoming)" if "webhook_path url" for incoming
    using that by (cases "readJsonBody incoming") (simp_all add: handleWebhookRequest_unread handleWebhookRequest_read)
  show ?thesis
  proof (cases "meth = js ''POST'' \<and> webhook_path url")
    case True
    then have m: "meth = js ''POST''" and u: "webhook_path url" by simp_all
    show ?thesis
      using taken [OF u] handleWebhookRequest_read [OF u v(1)] handleWebhookRequest_read [OF u empty]
        handleWebhookRequest_unread [OF u broken] handleWebhookRequest_unread [OF u stream] v(2)
      unfolding Let_def path [symmetric] m by (simp add: u opt_prop_obj js_simps) (simp add: obj_def)
  next
    case False
    then show ?thesis unfolding Let_def path [symmetric] by (auto simp: handleWebhookRequest_ignored)
  qed
qed

theorem webhook_answers_witness:
  "snd (handleWebhookRequest (js ''POST'') (Some (js ''/webhook'')) (Inr [utf8_encode (js ''{'')])) \<noteq> []"
proof -
  have v: "concat [utf8_encode (stringify demo_vm)] = utf8_encode (stringify demo_vm)" "json_ok demo_vm"
    by (simp_all add: demo_vm_def json_ok_obj)
  have b: "concat [utf8_encode (js ''{'')] = utf8_encode (js ''{'')" "well_formed (js ''{'')" "js ''{'' \<noteq> []"
    "\<nexists>x. json_parse (js ''{'') = Inr x"
    by (simp_all add: js_ascii) (simp add: json_parse_def js_Cons skip_ws_def json_ws_def numeral_3_eq_3)
  from webhook_answers [OF v b, of "js ''POST''" "Some (js ''/webhook'')"] show ?thesis
    by (auto simp: Let_def dest!: spec [of _ "[]"])
qed

text \<open>C31. Every request that matches a route is answered with status 200, 400, 403 or 500: the reply is the one of its handler, an exception of the handler becomes a 500, and unless NODE_ENV is development that 500 says nothing of the error. Only the callback endpoints can run out of fuel.\<close>

theorem every_request_answered:
  assumes "dispatch lib cfg n r = Some m"
  shows "\<exists>m'. handleRequest lib env cfg n r = Some m'
    \<and> fst (run sv m' w) = (case fst (run sv m w) of Threw e \<Rightarrow> Returned (errorReply env e) | res \<Rightarrow> res)
    \<and> (case fst (run sv m' w) of Returned a \<Rightarrow> rp_code a \<in> {200, 400, 403, 500} | Threw e \<Rightarrow> False
        | Exhausted \<Rightarrow> hd (hr_path r) = js ''callback'')
    \<and> (\<forall>e. rp_code (errorReply env e) = 500 \<and> (env ''NODE_ENV'' \<noteq> Some (js ''development'') \<longrightarrow>
         rp_body (errorReply env e) = obj [(''error'', str_val ''Internal Server Error''), (''message'', Undef)]))"
proof -
  let ?m = "try_catch m (\<lambda>e. Return (errorReply env e))"
  have m: "handleRequest lib env cfg n r = Some ?m" using assms by (simp add: handleRequest_def)
  moreover have "fst (run sv ?m w) = (case fst (run sv m w) of Threw e \<Rightarrow> Returned (errorReply env e) | res \<Rightarrow> res)"
    by (simp add: act_simps split: prod.split outcome.split)
  moreover have "case fst (run sv ?m w) of Returned a \<Rightarrow> rp_code a \<in> {200, 400, 403, 500} | Threw e \<Rightarrow> False
      | Exhausted \<Rightarrow> hd (hr_path r) = js ''callback''"
    using run_safe [OF coded_handleRequest [OF m], of sv w] run_safe [OF no_throw_handleRequest [OF m], of sv w]
      run_converges [OF converges_try_catch [OF converges_dispatch [OF assms]], of "\<lambda>e. Return (errorReply env e)" sv w]
    by (auto simp: app_code_def split: outcome.splits)
  moreover have "rp_code (errorReply env e) = 500 \<and> (env ''NODE_ENV'' \<noteq> Some (js ''development'') \<longrightarrow>
      rp_body (errorReply env e) = obj [(''error'', str_val ''Internal Server Error''), (''message'', Undef)])" for e
    by (simp add: errorReply_def json_reply_def isDevelopment_def)
  ultimately show ?thesis by blast
qed

theorem every_request_answered_witness:
  "\<exists>m'. handleRequest demo_lib (\<lambda>_. None) demo_config 5 \<lparr>hr_method = POST, hr_path = [js ''callback'', js ''u1''],
       hr_query = demo_query, hr_body = Undef\<rparr> = Some m'
     \<and> (\<exists>e. fst (run ref_service m' demo_world) = Returned (errorReply (\<lambda>_. None) e))"
proof -
  let ?r = "\<lparr>hr_method = POST, hr_path = [js ''callback'', js ''u1''], hr_query = demo_query, hr_body = Undef\<rparr>"
  have d: "dispatch demo_lib demo_config 5 ?r = Some (postCallback demo_config 5 (js ''u1'') Undef)"
    by (simp add: dispatch_def)
  have "\<exists>e. fst (run ref_service (postCallback demo_config 5 (js ''u1'') Undef) demo_world) = Threw e"
    by (simp add: postCallback_def)
  with every_request_answered [OF d, of "\<lambda>_. None" ref_service demo_world] show ?thesis by auto
qed

text \<open>C32. A binding that was stored is read back field by field, whatever Redis server keeps the laws of the interface, and no other key has changed.\<close>

theorem binding_read_back:
  assumes "redis_service sv keys" and "json_ok (vmIp b)" "json_ok (webhookUrl b)"
    and "\<bar>createdAt b\<bar> < 10 ^ 21" "\<bar>lastActiveAt b\<bar> < 10 ^ 21"
    and "run sv (setVMBinding u (binding_val b)) w = (Returned (), w1)"
    and "run sv (getVMBinding u) w1 = (Returned v, w2)"
  shows "v = binding_val b \<and> keys w2 = (keys w)(binding_key u \<mapsto> stringify (binding_val b))"
  using redis_service.run_setVMBinding [OF assms(1,6)] redis_service.run_getVMBinding [OF assms(1,7)]
    json_ok_binding_val [OF assms(2-5)] by (auto simp: decode_stringify)

theorem binding_read_back_witness:
  "\<exists>w1 w2. run ref_service (setVMBinding demo_user (binding_val (initial_binding 0 0))) demo_world = (Returned (), w1)
     \<and> run ref_service (getVMBinding demo_user) w1 = (Returned (binding_val (initial_binding 0 0)), w2)"
proof -
  let ?b = "initial_binding 0 0"
  obtain w1 where w1: "run ref_service (setVMBinding demo_user (binding_val ?b)) demo_world = (Returned (), w1)"
    by (simp add: setVMBinding_def redis_set_def)
  obtain v w2 where w2: "run ref_service (getVMBinding demo_user) w1 = (Returned v, w2)"
    by (simp add: getVMBinding_def redis_get_def)
  have "v = binding_val ?b"
    using binding_read_back [OF ref_redis_service _ _ _ _ w1 w2] by (simp add: initial_binding_def vm_binding_of_def)
  with w1 w2 show ?thesis by blast
qed

text \<open>C33. Updating the status of a binding sets the status and the activity time and keeps every other field, those another service wrote included; without a binding nothing is written.\<close>

theorem update_keeps_other_fields:
  assumes "redis_service sv keys" and "run sv (updateVMBindingStatus u s None) w = (Returned x, w')"
    and "decode_binding (keys w (binding_key u)) \<in> {Null, ObjV kvs}"
  shows "if decode_binding (keys w (binding_key u)) = Null then keys w' = keys w
     else \<exists>kvs' t. keys w' = (keys w)(binding_key u \<mapsto> stringify (ObjV kvs'))
       \<and> get_prop (ObjV kvs') ''status'' = Inr (StrV (status_str s))
       \<and> get_prop (ObjV kvs') ''lastActiveAt'' = Inr (int_val t)
       \<and> {k. obj_get kvs' k \<noteq> obj_get kvs k} \<subseteq> {js ''status'', js ''lastActiveAt''}"
proof (cases "decode_binding (keys w (binding_key u)) = Null")
  case True
  then show ?thesis using redis_service.run_update_absent [OF assms(1,2)] by simp
next
  case False
  with assms(3) have d: "decode_binding (keys w (binding_key u)) = ObjV kvs" by simp
  then obtain t b where b: "touch_binding (ObjV kvs) s t None = Inr b" "keys w' = (keys w)(binding_key u \<mapsto> stringify b)"
    using redis_service.run_updateVMBindingStatus [OF assms(1,2)] by auto
  let ?kvs = "obj_put (obj_put kvs (js ''status'') (StrV (status_str s))) (js ''lastActiveAt'') (int_val t)"
  have "keys w' = (keys w)(binding_key u \<mapsto> stringify (ObjV ?kvs))"
    using b unfolding touch_binding_obj by (simp only: sum.inject)
  moreover have "get_prop (ObjV ?kvs) ''status'' = Inr (StrV (status_str s))"
    "get_prop (ObjV ?kvs) ''lastActiveAt'' = Inr (int_val t)"
    "{k. obj_get ?kvs k \<noteq> obj_get kvs k} \<subseteq> {js ''status'', js ''lastActiveAt''}"
    by (auto simp: obj_get_put js_inj)
  ultimately show ?thesis using False by (simp only: if_False) blast
qed

theorem update_keeps_other_fields_witness:
  "ks_live (snd (run ref_service (updateVMBindingStatus demo_user Stopped None) demo_world)) = ks_live demo_world"
proof -
  have d: "decode_binding (ks_live demo_world (binding_key demo_user)) = Null"
    using demo_absent [of 1700000000000 no_peer demo_user] by (simp add: demo_world_def ks_binding_def)
  have "run ref_service (updateVMBindingStatus demo_user Stopped None) demo_world = (Returned (), demo_world)"
    using d by (simp add: updateVMBindingStatus_def getVMBinding_def redis_get_def)
  from update_keeps_other_fields [OF ref_redis_service this, of "[]"] d show ?thesis
    using \<open>run ref_service _ demo_world = _\<close> by simp
qed

text \<open>C34. The configuration is refused exactly when a required variable is missing or empty, with an error that names the first such variable; otherwise every field comes from its own variable: the required ones and the AES key as they are, the other texts with their defaults when unset or empty, and the numbers as the digits their value starts with, with their defaults.\<close>

theorem config_loaded:
  "case loadConfig env of
     Inl e \<Rightarrow> \<exists>x. find (env_missing env) [''WECHAT_APPID'', ''WECHAT_APPSECRET'', ''WECHAT_TOKEN'', ''BRIDGE_BASE_URL''] = Some x
        \<and> e = ErrorObj GenericError (js (''Missing required environment variable: '' @ x)) None
   | Inr cfg \<Rightarrow> find (env_missing env) [''WECHAT_APPID'', ''WECHAT_APPSECRET'', ''WECHAT_TOKEN'', ''BRIDGE_BASE_URL''] = None
        \<and> Some (wc_appId (cf_wechat cfg)) = env ''WECHAT_APPID'' \<and> Some (wc_appSecret (cf_wechat cfg)) = env ''WECHAT_APPSECRET''
        \<and> Some (wc_token (cf_wechat cfg)) = env ''WECHAT_TOKEN'' \<and> Some (br_baseUrl (cf_bridge cfg)) = env ''BRIDGE_BASE_URL''
        \<and> wc_encodingAESKey (cf_wechat cfg) = env ''WECHAT_ENCODING_AES_KEY''
        \<and> reads_number env ''PORT'' 3000 (cf_port cfg) \<and> reads_text env ''HOST'' ''0.0.0.0'' (cf_host cfg)
        \<and> reads_text env ''REDIS_URL'' ''redis://localhost:6379'' (cf_redisUrl cfg)
        \<and> reads_text env ''SSH_HOST'' ''your-server.example.com'' (br_sshHost (cf_bridge cfg))
        \<and> reads_number env ''SSH_PORT'' 2222 (br_sshPort (cf_bridge cfg))
        \<and> reads_text env ''ORCHESTRATOR_URL'' ''http://orchestrator:8080'' (oc_url (cf_orchestrator cfg))
        \<and> reads_number env ''VM_READY_TIMEOUT_MS'' 30000 (oc_vmReadyTimeoutMs (cf_orchestrator cfg))"
proof -
  have n: "js ''3000'' = nat_digits 3000" "js ''2222'' = nat_digits 2222" "js ''30000'' = nat_digits 30000"
    by (simp_all add: nat_digits.simps digit_def js_Cons)
  show ?thesis
    by (auto simp: loadConfig_def requireEnv_missing env_missing_def reads_text_env_or reads_number_parse [OF n(1)]
        reads_number_parse [OF n(2)] reads_number_parse [OF n(3)] split: sum.split)
qed

text \<open>C35. The chain of regular expressions implements the command grammar: a text denotes at most one command, whatever the letter case, and exactly that command is run; a text that denotes none goes on to the routing.\<close>

theorem commands_implement_grammar:
  "(runCommand lib cfg send u v s = Some m \<longleftrightarrow> (\<exists>c. denotes s c \<and> m = command_reply lib cfg send u v c))
   \<and> (runCommand lib cfg send u v s = None \<longleftrightarrow> (\<forall>c. \<not> denotes s c))
   \<and> (\<exists>d. {c. denotes s c} \<subseteq> {d})"
proof (intro conjI)
  show "runCommand lib cfg send u v s = Some m \<longleftrightarrow> (\<exists>c. denotes s c \<and> m = command_reply lib cfg send u v c)"
    by (rule runCommand_denotes)
  show "runCommand lib cfg send u v s = None \<longleftrightarrow> (\<forall>c. \<not> denotes s c)"
    using runCommand_denotes_some [of s _ lib cfg send u v] runCommand_none [of s lib cfg send u v] by fastforce
  show "\<exists>d. {c. denotes s c} \<subseteq> {d}"
    using denotes_unique [of s] by (cases "\<exists>c. denotes s c") auto
qed

text \<open>C36. A token that was fetched is stored with its expiry, the lock is free again, and for the next expires_in minus 600 seconds every call returns it without asking WeChat; after that, and from the start when expires_in is at most 600, the token is fetched again.\<close>

theorem fetched_token_reused:
  assumes "ks_live w TOKEN_KEY = None" "ks_live w TOKEN_LOCK_KEY = None"
    and "ks_answer w (token_request cfg) = GotHttp \<lparr>rs_status = code, rs_data = token_answer tok e\<rparr>"
    and "0 < e" "json_ok tok" "\<bar>ks_clock w div 1000 + e\<bar> < 10 ^ 21"
  shows "case run ref_service (getAccessToken cfg n) w of (r, w1) \<Rightarrow>
    r = Returned tok \<and> ks_live w1 TOKEN_LOCK_KEY = None \<and> ks_sent w1 = ks_sent w @ [token_request cfg]
    \<and> run ref_service (getAccessToken cfg k) (later d w1) =
       (if (ks_clock w + d) div 1000 < ks_clock w div 1000 + e - 600 then (Returned tok, later d w1)
        else run ref_service (refreshAccessToken cfg k) (later d w1))"
  unfolding run_fetch [OF assms(1-4)] prod.case token_reused [OF assms(5,6), of cfg k d]
  by (simp add: TOKEN_REFRESH_THRESHOLD_def fetched_frame)

theorem fetched_token_reused_witness:
  "fst (run ref_service (getAccessToken demo_config 0) (later 3600000 (snd (run ref_service (getAccessToken demo_config 0)
     (fresh_world 1700000000000 (\<lambda>n q. GotHttp \<lparr>rs_status = 200, rs_data = token_answer (str_val ''tok'') 7200\<rparr>)))))) =
     Returned (str_val ''tok'')"
  using fetched_token_reused [where w = "fresh_world 1700000000000 (\<lambda>n q. GotHttp \<lparr>rs_status = 200, rs_data = token_answer (str_val ''tok'') 7200\<rparr>)"
      and cfg = demo_config and code = 200 and tok = "str_val ''tok''" and e = 7200 and n = 0 and k = 0 and d = 3600000]
  by (auto simp del: getAccessToken.simps simp: ks_answer_def split: prod.splits)

text \<open>C37. From the first message to a running VM: whatever else is pending, a signed subscribe event can be handled to its end, after which the provisioning task it started binds the VM the orchestrator answers with, as running, and no other key has changed.\<close>

theorem first_contact_binds_vm:
  assumes "subscribe_request lib cfg r u v" and "\<bar>t\<bar> < 10 ^ 21" "json_ok ip" "json_ok url"
  shows "\<exists>rest. (step lib env cfg n flt)\<^sup>*\<^sup>*
    \<lparr>sys_keys = keys, sys_pool = pool, sys_crashed = False\<rparr>
    \<lparr>sys_keys = keys(binding_key u \<mapsto> stringify (binding_val
       \<lparr>vmIp = ip, webhookUrl = url, vb_status = Running, createdAt = t, lastActiveAt = t,
        errorMessage = None, ssh_password = None\<rparr>)),
     sys_pool = pool @ [Return (), rest], sys_crashed = False\<rparr>"
  using first_contact_schedule [OF assms] by (simp add: vm_binding_of_def)

theorem first_contact_binds_vm_witness:
  "\<exists>s. (step demo_lib (\<lambda>_. None) demo_config 5 False)\<^sup>*\<^sup>*
      \<lparr>sys_keys = (\<lambda>_. None), sys_pool = [], sys_crashed = False\<rparr> s \<and> sys_keys s (binding_key demo_user) \<noteq> None"
proof -
  have "subscribe_request demo_lib demo_config demo_request demo_user (str_val ''gh'')"
    by (simp add: subscribe_request_def demo_request_def demo_defs given_def text_of_def validateSignature_generate
        parseWeChatXml_def js_simps demo_event_def Let_def)
  from first_contact_binds_vm [OF this, of 0 "str_val ''10.0.0.2''" "str_val ''http://10.0.0.2''" "\<lambda>_. None" 5 False "\<lambda>_. None" "[]"]
  show ?thesis by auto
qed

text \<open>C38. Every request is answered and every background task comes to an end, whatever the other services answer and whatever the orchestrator writes: with 31 rounds of fuel for the token loop, in a store where the token lock has at most its 30 seconds left, no handler and no task runs out of fuel, and the store they leave is such a store again.\<close>

theorem requests_and_tasks_end:
  assumes "31 \<le> n" and "lock_bounded w"
  shows "(case handleRequest lib env cfg n r of None \<Rightarrow> True | Some m \<Rightarrow>
      \<exists>a w'. run ref_service m w = (Returned a, w') \<and> lock_bounded w')
    \<and> fst (run ref_service (task_body cfg n t) w) \<noteq> Exhausted \<and> lock_bounded (snd (run ref_service (task_body cfg n t) w))"
proof -
  have "\<exists>a w'. run ref_service m w = (Returned a, w') \<and> lock_bounded w'" if m: "handleRequest lib env cfg n r = Some m" for m
  proof -
    obtain res w' where run: "run ref_service m w = (res, w')" by fastforce
    have "res \<noteq> Exhausted" "lock_bounded w'"
      using ends_handleRequest [OF assms(1) m] assms(2) run by (auto simp: ends_def)
    moreover have "\<forall>e. res \<noteq> Threw e"
      using run_safe [OF no_throw_handleRequest [OF m], of ref_service w] run by auto
    ultimately show ?thesis using run by (cases res) auto
  qed
  with ends_task_body [OF assms(1), of cfg t] assms(2) show ?thesis by (auto simp: ends_def split: option.split)
qed

theorem requests_and_tasks_end_witness:
  "fst (run ref_service (provisionVMAsync demo_config 31 demo_user)
     (ks_store failing_world TOKEN_LOCK_KEY (js ''1'') (Some 30))) \<noteq> Exhausted"
  using requests_and_tasks_end [of 31 "ks_store failing_world TOKEN_LOCK_KEY (js ''1'') (Some 30)" demo_lib "\<lambda>_. None" demo_config
      demo_request "ProvisionTask demo_user"]
  by (simp add: lock_bounded_def ks_store_def)



text \<open>C40. The process comes to listen for requests, and goes on, exactly when its configuration is complete and the socket can be bound: it then listens on the port and host of that configuration before it handles signals, and otherwise it ends with an error. From then on every module sees the configuration it was started with, whatever becomes of the environment: the routes, the Redis client and the orchestrator client.\<close>

theorem server_lifecycle:
  "case main env bind fresh_modules of (failure, evs, m) \<Rightarrow>
     ((\<exists>p h. Listen p h \<in> set evs) \<and> failure = None \<and> ExitProcess 1 \<notin> set evs
        \<longleftrightarrow> (\<exists>cfg. loadConfig env = Inr cfg \<and> bind (cf_port cfg) (cf_host cfg) = None))
     \<and> (case loadConfig env of
          Inl e \<Rightarrow> failure = Some e \<and> evs = []
        | Inr cfg \<Rightarrow> failure = None
            \<and> evs = Listen (cf_port cfg) (cf_host cfg) # (case bind (cf_port cfg) (cf_host cfg) of
                 None \<Rightarrow> [HandleSignals] | Some err \<Rightarrow> [LogError err, ExitProcess 1])
            \<and> getConfig env' m = (Inr cfg, m)
            \<and> (\<exists>r m'. getRedis env' m = (Inr r, m') \<and> client_url r = cf_redisUrl cfg)
            \<and> (\<exists>c. getOrchestratorClient env' m = (Inr c, m) \<and> client_baseURL c = oc_url (cf_orchestrator cfg)
                 \<and> client_timeout c = oc_vmReadyTimeoutMs (cf_orchestrator cfg)))"
proof (cases "loadConfig env")
  case (Inl e)
  then show ?thesis by (simp add: main_fresh)
next
  case (Inr cfg)
  then show ?thesis unfolding main_fresh
    by (cases "bind (cf_port cfg) (cf_host cfg)")
      (simp_all add: getConfig_def getRedis_def getOrchestratorClient_def fresh_modules_def client_of_def Let_def)
qed

end
